theory Spec2Isabelle
  imports Main "HOL-Library.Word" "HOL-Library.Signed_Division"
begin

unbundle bit_operations_syntax

section \<open>Data model of lwan.c\<close>

text \<open>
  The connection slot \<^verbatim>\<open>lwan_request_t\<close>. Its declaration lives in \<^verbatim>\<open>lwan.h\<close>; the fields
  below are the ones \<^verbatim>\<open>lwan.c\<close> reads or writes: \<^verbatim>\<open>fd\<close>, \<^verbatim>\<open>flags.alive\<close>,
  \<^verbatim>\<open>flags.is_keep_alive\<close>, \<^verbatim>\<open>time_to_die\<close> and \<^verbatim>\<open>response.buffer\<close>. Every other byte of the
  struct is kept in \<open>opaque_state\<close>, where \<open>0\<close> stands for all bytes zero. The buffer
  pointer is an address, \<open>0\<close> being \<^verbatim>\<open>NULL\<close>. File descriptors are C \<^verbatim>\<open>int\<close>s; the tick
  counter \<^verbatim>\<open>death_time\<close> is an \<^verbatim>\<open>unsigned int\<close>, so deadlines are 32-bit words and wrap.
\<close>

record lwan_request =
  request_fd :: int
  flags_alive :: bool
  flags_is_keep_alive :: bool
  time_to_die :: "32 word"
  response_buffer :: nat
  opaque_state :: nat

text \<open>What \<^verbatim>\<open>memset(request, 0, sizeof(*request))\<close> and \<^verbatim>\<open>calloc\<close> leave in a slot.\<close>

definition zeroed_request :: lwan_request where
  "zeroed_request =
     \<lparr>request_fd = 0, flags_alive = False, flags_is_keep_alive = False,
      time_to_die = 0, response_buffer = 0, opaque_state = 0\<rparr>"

text \<open>
  The fields of \<^verbatim>\<open>lwan_t\<close> that the modelled functions read: \<^verbatim>\<open>thread.count\<close>,
  \<^verbatim>\<open>thread.max_fd\<close>, \<^verbatim>\<open>config.keep_alive_timeout\<close> (already converted to the
  \<^verbatim>\<open>unsigned int\<close> it is added to), \<^verbatim>\<open>main_socket\<close> and, for every index \<open>n\<close>,
  \<^verbatim>\<open>thread.threads[n].epoll_fd\<close>. Both \<^verbatim>\<open>thread.count\<close> and \<^verbatim>\<open>thread.max_fd\<close> are
  divisors in the code (\<^verbatim>\<open>%\<close> and \<^verbatim>\<open>/\<close>); a zero there traps in C, and the theorems
  below that depend on the quotient or remainder assume them positive.
\<close>

record lwan =
  thread_count :: nat
  thread_max_fd :: nat
  keep_alive_timeout :: "32 word"
  main_socket :: int
  thread_epoll_fd :: "int \<Rightarrow> int"

record epoll_event =
  events :: "32 word"
  data_fd :: int

text \<open>Linux values of the constants taken from the system headers.\<close>

definition EPOLLIN :: "32 word" where "EPOLLIN = 0x001"
definition EPOLLERR :: "32 word" where "EPOLLERR = 0x008"
definition EPOLLHUP :: "32 word" where "EPOLLHUP = 0x010"
definition EPOLLRDHUP :: "32 word" where "EPOLLRDHUP = 0x2000"
definition EPOLLET :: "32 word" where "EPOLLET = 0x80000000"

definition SOCK_NONBLOCK :: int where "SOCK_NONBLOCK = 0x800"
definition RLIM_INFINITY :: "64 word" where "RLIM_INFINITY = - 1"

definition EINTR :: int where "EINTR = 4"
definition EBADF :: int where "EBADF = 9"
definition EINVAL :: int where "EINVAL = 22"

text \<open>
  Calls that leave \<^verbatim>\<open>lwan.c\<close> (system calls, \<^verbatim>\<open>strbuf\<close>, the request processor) are
  recorded, in program order, in a trace. \<open>Lwan_process_request r\<close> records the slot
  contents \<open>r\<close> handed to the processor.
\<close>

datatype call =
    Epoll_wait int
  | Epoll_ctl_del int
  | Epoll_ctl_add int int "32 word"
  | Close int
  | Perror string
  | Strbuf_reset nat
  | Strbuf_new
  | Strbuf_free nat
  | Lwan_process_request lwan_request
  | Accept4 int int
  | Free_death_queue
  | Free_requests
  | Exit int

text \<open>
  One ready entry of the array filled by \<^verbatim>\<open>epoll_wait\<close>, together with what the outside
  world answers while the worker handles it: the return value of \<^verbatim>\<open>epoll_ctl\<close> and the
  effect of \<^verbatim>\<open>lwan_process_request\<close> on the slot it is given.
\<close>

record ready =
  event :: epoll_event
  epoll_ctl_ret :: int
  process_request :: "lwan_request \<Rightarrow> lwan_request"

text \<open>
  The value of \<^verbatim>\<open>epoll_wait\<close>: \<open>Failed errno\<close> is the return value \<open>-1\<close>; \<open>Returned rs\<close>
  is the return value \<open>length rs\<close>, so \<open>Returned []\<close> is the timeout.
\<close>

datatype wait_result = Failed int | Returned "ready list"

text \<open>
  The locals of \<^verbatim>\<open>_thread\<close> and the slot table it points to. The three queue
  indices are C \<^verbatim>\<open>int\<close>s that start at 0, are only incremented, reduced modulo
  \<^verbatim>\<open>max_fd\<close> or decremented when non-zero; they are natural numbers here. The table
  is indexed by fd; it is a total function here, the C array having one slot for every
  fd below the open-files limit. \<open>trace\<close> collects the calls the thread makes.
\<close>

record thread_state =
  requests :: "int \<Rightarrow> lwan_request"
  death_queue :: "int list"
  death_queue_last :: nat
  death_queue_first :: nat
  death_queue_population :: nat
  death_time :: "32 word"
  trace :: "call list"

section \<open>The worker: \<^verbatim>\<open>_reset_request\<close> and \<^verbatim>\<open>_thread\<close>\<close>

text \<open>\<^verbatim>\<open>_reset_request\<close>: the new slot contents and the call it makes.\<close>

definition reset_request :: "lwan_request \<Rightarrow> int \<Rightarrow> lwan_request \<times> call list" where
  "reset_request request i =
     (let response_buffer0 = response_buffer request in
      (zeroed_request\<lparr>request_fd := i, response_buffer := response_buffer0\<rparr>,
       [Strbuf_reset response_buffer0]))"

text \<open>State at the entry of \<^verbatim>\<open>_thread\<close>: \<^verbatim>\<open>calloc\<close> zeroes the death queue.\<close>

definition thread_start :: "lwan \<Rightarrow> (int \<Rightarrow> lwan_request) \<Rightarrow> thread_state" where
  "thread_start l rs =
     \<lparr>requests = rs, death_queue = replicate (thread_max_fd l) 0,
      death_queue_last = 0, death_queue_first = 0, death_queue_population = 0,
      death_time = 0, trace = []\<rparr>"

text \<open>The timeout argument of \<^verbatim>\<open>epoll_wait\<close> (line 161).\<close>

definition wait_timeout :: "thread_state \<Rightarrow> int" where
  "wait_timeout t = (if death_queue_population t \<noteq> 0 then 1000 else - 1)"

text \<open>The \<^verbatim>\<open>while (death_queue_population)\<close> loop of the timeout case (lines 174-189).\<close>

function reap :: "lwan \<Rightarrow> thread_state \<Rightarrow> thread_state" where
  "reap l t =
     (if death_queue_population t \<noteq> 0 then
        (let i = death_queue t ! death_queue_first t;
             request = requests t i
         in if time_to_die request \<le> death_time t then
              reap l (t\<lparr>death_queue_first := (death_queue_first t + 1) mod thread_max_fd l,
                        death_queue_population := death_queue_population t - 1,
                        requests := (requests t)(i := request\<lparr>flags_alive := False\<rparr>),
                        trace := trace t @ [Close (request_fd request)]\<rparr>)
            else t)
      else t)"
  by pat_completeness auto
termination
  by (relation "measure (\<lambda>(l, t). death_queue_population t)") auto

declare reap.simps [simp del]

text \<open>The keep-alive branch (lines 211-231), entered with the processed slot.\<close>

definition keep_alive_branch :: "lwan \<Rightarrow> thread_state \<Rightarrow> int \<Rightarrow> lwan_request \<Rightarrow> thread_state" where
  "keep_alive_branch l t i request =
     (let request1 = request\<lparr>time_to_die := death_time t + keep_alive_timeout l\<rparr> in
      if \<not> flags_alive request1 then
        t\<lparr>death_queue := (death_queue t)[death_queue_last t := i],
          death_queue_last := (death_queue_last t + 1) mod thread_max_fd l,
          death_queue_population := death_queue_population t + 1,
          requests := (requests t)(i := request1\<lparr>flags_alive := True\<rparr>)\<rparr>
      else t\<lparr>requests := (requests t)(i := request1)\<rparr>)"

text \<open>The test of line 195 on a ready entry.\<close>

definition is_hangup :: "ready \<Rightarrow> bool" where
  "is_hangup r = (events (event r) AND (EPOLLRDHUP OR EPOLLHUP) \<noteq> 0)"

text \<open>The body of the \<^verbatim>\<open>for\<close> loop over the ready events (lines 193-235).\<close>

definition handle_event :: "lwan \<Rightarrow> thread_state \<Rightarrow> ready \<Rightarrow> thread_state" where
  "handle_event l t r =
     (let i = data_fd (event r);
          request = requests t i
      in if is_hangup r then
           t\<lparr>requests := (requests t)(i := request\<lparr>flags_alive := False\<rparr>),
             trace := trace t @ Epoll_ctl_del i #
                        (if epoll_ctl_ret r < 0 then [Perror ''epoll_ctl''] else [])\<rparr>
         else
           (let (request1, calls) =
                  (if \<not> flags_alive request then reset_request request i else (request, []));
                request2 = process_request r request1;
                t1 = t\<lparr>trace := trace t @ calls @ [Lwan_process_request request1]\<rparr>
            in if flags_is_keep_alive request2 then keep_alive_branch l t1 i request2
               else t1\<lparr>requests := (requests t1)(i := request2\<lparr>flags_alive := False\<rparr>),
                       trace := trace t1 @ [Close i]\<rparr>))"

text \<open>
  One iteration of \<^verbatim>\<open>for (; ; )\<close> in \<^verbatim>\<open>_thread\<close>, given the value of \<^verbatim>\<open>epoll_wait\<close>:
  \<open>Inl\<close> is the state in which the function returns, \<open>Inr\<close> the state at the next
  iteration.
\<close>

definition thread_iteration :: "lwan \<Rightarrow> thread_state \<Rightarrow> wait_result \<Rightarrow> thread_state + thread_state" where
  "thread_iteration l t w =
     (let t0 = t\<lparr>trace := trace t @ [Epoll_wait (wait_timeout t)]\<rparr> in
      case w of
        Failed errno \<Rightarrow>
          if errno = EBADF \<or> errno = EINVAL then Inl (t0\<lparr>trace := trace t0 @ [Free_death_queue]\<rparr>)
          else if errno = EINTR then Inr (t0\<lparr>trace := trace t0 @ [Perror ''epoll_wait'']\<rparr>)
          else Inr t0
      | Returned [] \<Rightarrow> Inr (reap l (t0\<lparr>death_time := death_time t0 + 1\<rparr>))
      | Returned (r # rs) \<Rightarrow> Inr (foldl (handle_event l) t0 (r # rs)))"

text \<open>The loop over a sequence of \<^verbatim>\<open>epoll_wait\<close> values; it stops when the thread returns.\<close>

fun thread_run :: "lwan \<Rightarrow> thread_state \<Rightarrow> wait_result list \<Rightarrow> thread_state + thread_state" where
  "thread_run l t [] = Inr t"
| "thread_run l t (w # ws) =
     (case thread_iteration l t w of
        Inl t' \<Rightarrow> Inl t'
      | Inr t' \<Rightarrow> thread_run l t' ws)"

section \<open>Reading the death queue\<close>

text \<open>
  The fds stored in the circular buffer, from head to tail: \<^verbatim>\<open>death_queue_population\<close>
  entries starting at \<^verbatim>\<open>death_queue_first\<close>, indices taken modulo \<^verbatim>\<open>max_fd\<close>.
\<close>

definition queue_entries :: "lwan \<Rightarrow> thread_state \<Rightarrow> int list" where
  "queue_entries l t =
     map (\<lambda>k. death_queue t ! ((death_queue_first t + k) mod thread_max_fd l))
       [0..<death_queue_population t]"

text \<open>
  The circular buffer is well formed: it has \<^verbatim>\<open>max_fd\<close> cells, the head index is in
  range and the tail index is the head index plus the population, modulo \<^verbatim>\<open>max_fd\<close>.
\<close>

definition queue_consistent :: "lwan \<Rightarrow> thread_state \<Rightarrow> bool" where
  "queue_consistent l t =
     (length (death_queue t) = thread_max_fd l \<and>
      death_queue_first t < thread_max_fd l \<and>
      death_queue_last t =
        (death_queue_first t + death_queue_population t) mod thread_max_fd l)"

text \<open>The test of line 177 on the slot of fd \<open>i\<close>.\<close>

definition expired :: "thread_state \<Rightarrow> int \<Rightarrow> bool" where
  "expired t i = (time_to_die (requests t i) \<le> death_time t)"

text \<open>The longest run of expired entries at the head of the queue.\<close>

definition reaped :: "lwan \<Rightarrow> thread_state \<Rightarrow> int list" where
  "reaped l t = takeWhile (expired t) (queue_entries l t)"

text \<open>The deadlines of the queued fds, head to tail, read as unsigned numbers.\<close>

definition queue_deadlines :: "lwan \<Rightarrow> thread_state \<Rightarrow> nat list" where
  "queue_deadlines l t = map (\<lambda>i. unat (time_to_die (requests t i))) (queue_entries l t)"

text \<open>
  Runs that only append to the death queue: every ready entry without hang-up bits is
  for an fd that is not in the queue when the entry is handled, and the queue has a free
  cell then. \<open>fresh_entries\<close> checks the entries of one \<^verbatim>\<open>epoll_wait\<close> result against the
  states the loop passes through, \<open>appends_only\<close> a sequence of results.
\<close>

fun fresh_entries :: "lwan \<Rightarrow> thread_state \<Rightarrow> ready list \<Rightarrow> bool" where
  "fresh_entries l t [] = True"
| "fresh_entries l t (r # rs) =
     ((is_hangup r \<or>
       (data_fd (event r) \<notin> set (queue_entries l t) \<and>
        death_queue_population t < thread_max_fd l)) \<and>
      fresh_entries l (handle_event l t r) rs)"

fun appends_only :: "lwan \<Rightarrow> thread_state \<Rightarrow> wait_result list \<Rightarrow> bool" where
  "appends_only l t [] = True"
| "appends_only l t (w # ws) =
     ((case w of
         Failed errno \<Rightarrow> True
       | Returned rs \<Rightarrow>
           fresh_entries l (t\<lparr>trace := trace t @ [Epoll_wait (wait_timeout t)]\<rparr>) rs) \<and>
      (case thread_iteration l t w of
         Inl t' \<Rightarrow> True
       | Inr t' \<Rightarrow> appends_only l t' ws))"

text \<open>The results of \<^verbatim>\<open>epoll_wait\<close> that are timeouts; each advances the tick by one.\<close>

fun is_timeout :: "wait_result \<Rightarrow> bool" where
  "is_timeout (Returned []) = True"
| "is_timeout w = False"

text \<open>
  The invariant behind the order of the queue: the buffer is well formed and not over
  capacity, the deadlines are in order, and none lies beyond the current tick plus the
  timeout.
\<close>

definition deadlines_ordered :: "lwan \<Rightarrow> thread_state \<Rightarrow> bool" where
  "deadlines_ordered l t =
     (queue_consistent l t \<and> death_queue_population t \<le> thread_max_fd l \<and>
      sorted (queue_deadlines l t) \<and>
      (\<forall>i \<in> set (queue_entries l t).
         unat (time_to_die (requests t i)) \<le> unat (death_time t) + unat (keep_alive_timeout l)))"

text \<open>
  The slot contents \<^verbatim>\<open>lwan_process_request\<close> is called with for a ready entry (lines
  201-209), and the slot contents it leaves.
\<close>

definition handed_request :: "thread_state \<Rightarrow> ready \<Rightarrow> lwan_request" where
  "handed_request t r =
     (if flags_alive (requests t (data_fd (event r))) then requests t (data_fd (event r))
      else fst (reset_request (requests t (data_fd (event r))) (data_fd (event r))))"

definition processed_request :: "thread_state \<Rightarrow> ready \<Rightarrow> lwan_request" where
  "processed_request t r = process_request r (handed_request t r)"

section \<open>The dispatcher and the acceptor: \<^verbatim>\<open>_schedule_request\<close>, \<^verbatim>\<open>_push_request_fd\<close>, \<^verbatim>\<open>lwan_main_loop\<close>\<close>

text \<open>
  \<^verbatim>\<open>_schedule_request\<close> in the default build (the waterwheel variant is compiled out):
  \<^verbatim>\<open>return counter++ % l->thread.count\<close> on a \<^verbatim>\<open>static int counter\<close>. The counter is a
  32-bit word read as two's complement; incrementing \<^verbatim>\<open>INT_MAX\<close> wraps to \<^verbatim>\<open>INT_MIN\<close>,
  as it does on the machines lwan runs on (the C standard leaves it undefined). C's
  \<^verbatim>\<open>%\<close> truncates towards zero, which is \<open>smod\<close>. The result is the worker index and
  the new counter.
\<close>

definition schedule_request :: "lwan \<Rightarrow> 32 word \<Rightarrow> int \<times> 32 word" where
  "schedule_request l counter = (sint counter smod int (thread_count l), counter + 1)"

text \<open>\<open>k\<close> consecutive calls, from a given counter: the worker indices in order.\<close>

fun schedule_requests :: "lwan \<Rightarrow> nat \<Rightarrow> 32 word \<Rightarrow> int list" where
  "schedule_requests l 0 counter = []"
| "schedule_requests l (Suc k) counter =
     fst (schedule_request l counter) # schedule_requests l k (snd (schedule_request l counter))"

text \<open>
  The acceptor's state: the static counter of the dispatcher, the number of
  \<^verbatim>\<open>accept4\<close> calls made so far (which selects the answer of the outside world) and the
  calls made. \<open>accept_env\<close> is what the outside world answers to the \<open>n\<close>-th
  \<^verbatim>\<open>accept4\<close>: its return value, the errno it leaves, and the return value of the
  \<^verbatim>\<open>epoll_ctl\<close> that registers the accepted fd.
\<close>

record acceptor_state =
  counter :: "32 word"
  accept4_calls :: nat
  calls :: "call list"

record accept_env =
  accept4_ret :: int
  accept4_errno :: int
  epoll_ctl_add_ret :: int

text \<open>\<^verbatim>\<open>_push_request_fd\<close>: \<open>Inl\<close> is the state in which the process exits.\<close>

definition push_request_fd ::
    "lwan \<Rightarrow> acceptor_state \<Rightarrow> int \<Rightarrow> int \<Rightarrow> acceptor_state + acceptor_state" where
  "push_request_fd l a child_fd ctl_ret =
     (let (n, counter1) = schedule_request l (counter a);
          epoll_fd = thread_epoll_fd l n;
          a1 = a\<lparr>counter := counter1,
                 calls := calls a @
                   [Epoll_ctl_add epoll_fd child_fd (EPOLLIN OR EPOLLRDHUP OR EPOLLERR OR EPOLLET)]\<rparr>
      in if ctl_ret < 0 then Inl (a1\<lparr>calls := calls a1 @ [Perror ''epoll_ctl'', Exit (- 1)]\<rparr>)
         else Inr a1)"




text \<open>
  For the \<open>j\<close>-th \<^verbatim>\<open>accept4\<close> of a run of the inner loop that starts in state \<open>a\<close>: the
  number of accepts that succeeded before it, and the calls one pass of the loop body
  makes for it when \<^verbatim>\<open>epoll_ctl\<close> succeeds.
\<close>

definition accepted_before :: "(nat \<Rightarrow> accept_env) \<Rightarrow> nat \<Rightarrow> nat \<Rightarrow> nat" where
  "accepted_before env c j = length (filter (\<lambda>i. 0 \<le> accept4_ret (env i)) [c..<j])"

definition accept_calls :: "lwan \<Rightarrow> (nat \<Rightarrow> accept_env) \<Rightarrow> acceptor_state \<Rightarrow> nat \<Rightarrow> call list" where
  "accept_calls l env a j =
     Accept4 (main_socket l) SOCK_NONBLOCK #
     (if accept4_ret (env j) < 0 then [Perror ''accept'']
      else [Epoll_ctl_add
              (thread_epoll_fd l
                 (fst (schedule_request l
                    (counter a + of_nat (accepted_before env (accept4_calls a) j)))))
              (accept4_ret (env j))
              (EPOLLIN OR EPOLLRDHUP OR EPOLLERR OR EPOLLET)])"



section \<open>The slot table: \<^verbatim>\<open>lwan_init\<close> and \<^verbatim>\<open>lwan_shutdown\<close>\<close>

text \<open>
  What the outside world answers during \<^verbatim>\<open>lwan_init\<close>: the value of \<^verbatim>\<open>sysconf\<close>, the
  return values of \<^verbatim>\<open>getrlimit\<close> and \<^verbatim>\<open>setrlimit\<close>, the limits read (\<^verbatim>\<open>rlim_t\<close> is a
  64-bit unsigned integer) and the pointer \<^verbatim>\<open>strbuf_new\<close> returns when called for slot
  \<open>i\<close>.
\<close>

record init_env =
  sysconf_ret :: int
  getrlimit_ret :: int
  rlim_cur0 :: "64 word"
  rlim_max0 :: "64 word"
  setrlimit_ret :: int
  strbuf_new_ret :: "nat \<Rightarrow> nat"

text \<open>Lines 339-342: the soft limit the server asks for.\<close>

definition raise_rlimit :: "64 word \<Rightarrow> 64 word \<Rightarrow> 64 word" where
  "raise_rlimit rlim_cur rlim_max =
     (if rlim_max = RLIM_INFINITY then rlim_cur * 8
      else if rlim_cur < rlim_max then rlim_max
      else rlim_cur)"

text \<open>
  The loop of lines 353-354, entered after its initialiser \<^verbatim>\<open>--r.rlim_cur\<close>: while
  \<^verbatim>\<open>r.rlim_cur\<close> is non-zero, store a new buffer in slot \<^verbatim>\<open>r.rlim_cur\<close> and decrement.
\<close>

function alloc_buffers ::
    "(nat \<Rightarrow> nat) \<Rightarrow> 64 word \<Rightarrow> (int \<Rightarrow> lwan_request) \<times> call list \<Rightarrow>
     (int \<Rightarrow> lwan_request) \<times> call list" where
  "alloc_buffers new rlim_cur (rs, cs) =
     (if rlim_cur \<noteq> 0 then
        alloc_buffers new (rlim_cur - 1)
          (rs(uint rlim_cur := (rs (uint rlim_cur))\<lparr>response_buffer := new (unat rlim_cur)\<rparr>),
           cs @ [Strbuf_new])
      else (rs, cs))"
  by pat_completeness auto
termination
  by (relation "measure (\<lambda>(new, rlim_cur, p). unat rlim_cur)") (auto simp: unat_minus_one unat_gt_0)

declare alloc_buffers.simps [simp del]

text \<open>
  \<^verbatim>\<open>lwan_init\<close> up to the slot loop (lines 330-354): the worker count, the limit, the
  zeroed table of \<^verbatim>\<open>rlim_cur\<close> slots, \<^verbatim>\<open>max_fd\<close> and the buffers. \<open>Inl\<close> is an exit. The
  rest of the function (\<^verbatim>\<open>srand\<close>, \<^verbatim>\<open>signal\<close>, \<^verbatim>\<open>close\<close>, socket and thread set-up) does not
  touch the table. The result carries the table size. \<^verbatim>\<open>thread.max_fd\<close> is a C \<^verbatim>\<open>int\<close>;
  the quotient \<^verbatim>\<open>rlim_cur / count\<close> is taken to fit, as is the product
  \<^verbatim>\<open>max_fd * count\<close> in \<^verbatim>\<open>lwan_shutdown\<close>.
\<close>

definition lwan_init ::
    "init_env \<Rightarrow> lwan \<Rightarrow> call list + (lwan \<times> nat \<times> (int \<Rightarrow> lwan_request) \<times> call list)" where
  "lwan_init e l =
     (let max_threads = sysconf_ret e;
          count = (if max_threads > 0 then nat max_threads else 2)
      in if getrlimit_ret e < 0 then Inl [Perror ''getrlimit'', Exit (- 1)]
         else
           (let rlim_cur = raise_rlimit (rlim_cur0 e) (rlim_max0 e) in
            if setrlimit_ret e < 0 then Inl [Perror ''setrlimit'', Exit (- 1)]
            else
              (let l1 = l\<lparr>thread_count := count, thread_max_fd := unat rlim_cur div count\<rparr>;
                   (rs, cs) = alloc_buffers (strbuf_new_ret e) (rlim_cur - 1)
                                (\<lambda>i. zeroed_request, [])
               in Inr (l1, unat rlim_cur, rs, cs))))"

text \<open>The loop of lines 372-373 of \<^verbatim>\<open>lwan_shutdown\<close>, and the \<^verbatim>\<open>free\<close> after it.\<close>

function free_buffers :: "(int \<Rightarrow> lwan_request) \<Rightarrow> int \<Rightarrow> call list \<Rightarrow> call list" where
  "free_buffers rs i cs =
     (if i \<ge> 0 then free_buffers rs (i - 1) (cs @ [Strbuf_free (response_buffer (rs i))])
      else cs)"
  by pat_completeness auto
termination
  by (relation "measure (\<lambda>(rs, i, cs). nat (i + 1))") auto

declare free_buffers.simps [simp del]

definition lwan_shutdown :: "lwan \<Rightarrow> (int \<Rightarrow> lwan_request) \<Rightarrow> call list" where
  "lwan_shutdown l rs =
     free_buffers rs (int (thread_max_fd l) * int (thread_count l) - 1) [] @ [Free_requests]"

section \<open>Sample inputs\<close>

text \<open>
  A server with two workers of four fds each and a keep-alive timeout of two ticks; a
  slot table as \<^verbatim>\<open>lwan_init\<close> leaves it, slot \<open>i\<close> owning the buffer at address
  \<open>100 + i\<close>; and three kinds of ready entries for fd \<open>i\<close>: a request that asks to keep
  the connection, a request that does not, and a peer hang-up.
\<close>

definition sample_lwan :: lwan where
  "sample_lwan =
     \<lparr>thread_count = 2, thread_max_fd = 4, keep_alive_timeout = 2, main_socket = 3,
      thread_epoll_fd = (\<lambda>n. 10 + n)\<rparr>"

definition sample_requests :: "int \<Rightarrow> lwan_request" where
  "sample_requests = (\<lambda>i. zeroed_request\<lparr>response_buffer := 100 + nat i\<rparr>)"

definition keep_alive_request :: "int \<Rightarrow> ready" where
  "keep_alive_request i =
     \<lparr>event = \<lparr>events = EPOLLIN, data_fd = i\<rparr>, epoll_ctl_ret = 0,
      process_request = (\<lambda>r. r\<lparr>flags_is_keep_alive := True\<rparr>)\<rparr>"

definition last_request :: "int \<Rightarrow> ready" where
  "last_request i =
     \<lparr>event = \<lparr>events = EPOLLIN, data_fd = i\<rparr>, epoll_ctl_ret = 0,
      process_request = (\<lambda>r. r\<lparr>flags_is_keep_alive := False\<rparr>)\<rparr>"

definition hangup :: "int \<Rightarrow> ready" where
  "hangup i =
     \<lparr>event = \<lparr>events = EPOLLIN OR EPOLLRDHUP, data_fd = i\<rparr>, epoll_ctl_ret = 0,
      process_request = (\<lambda>r. r)\<rparr>"

text \<open>
  Two states of a worker of the sample server: \<open>one_queued\<close> after a first keep-alive
  request on fd 5, and \<open>queued_state\<close> after one idle second and a keep-alive request
  on fd 6.
\<close>

definition one_queued :: thread_state where
  "one_queued =
     \<lparr>requests = sample_requests
        (5 := \<lparr>request_fd = 5, flags_alive = True, flags_is_keep_alive = True,
               time_to_die = 2, response_buffer = 105, opaque_state = 0\<rparr>),
      death_queue = [5, 0, 0, 0],
      death_queue_last = 1, death_queue_first = 0, death_queue_population = 1,
      death_time = 0,
      trace =
        [Epoll_wait (- 1), Strbuf_reset 105,
         Lwan_process_request
           \<lparr>request_fd = 5, flags_alive = False, flags_is_keep_alive = False,
            time_to_die = 0, response_buffer = 105, opaque_state = 0\<rparr>]\<rparr>"

definition queued_state :: thread_state where
  "queued_state =
     \<lparr>requests = sample_requests
        (5 := \<lparr>request_fd = 5, flags_alive = True, flags_is_keep_alive = True,
               time_to_die = 2, response_buffer = 105, opaque_state = 0\<rparr>,
         6 := \<lparr>request_fd = 6, flags_alive = True, flags_is_keep_alive = True,
               time_to_die = 3, response_buffer = 106, opaque_state = 0\<rparr>),
      death_queue = [5, 6, 0, 0],
      death_queue_last = 2, death_queue_first = 0, death_queue_population = 2,
      death_time = 1,
      trace =
        [Epoll_wait (- 1), Strbuf_reset 105,
         Lwan_process_request
           \<lparr>request_fd = 5, flags_alive = False, flags_is_keep_alive = False,
            time_to_die = 0, response_buffer = 105, opaque_state = 0\<rparr>,
         Epoll_wait 1000,
         Epoll_wait 1000, Strbuf_reset 106,
         Lwan_process_request
           \<lparr>request_fd = 6, flags_alive = False, flags_is_keep_alive = False,
            time_to_die = 0, response_buffer = 106, opaque_state = 0\<rparr>]\<rparr>"

text \<open>
  The worker of \<open>one_queued\<close> after a hang-up on fd 5 and one idle second: the slot is
  marked not alive, its entry is still at the head of the queue and its deadline is
  reached at the next timeout.
\<close>

definition stale_head :: thread_state where
  "stale_head =
     one_queued\<lparr>requests := (requests one_queued)
                 (5 := \<lparr>request_fd = 5, flags_alive = False, flags_is_keep_alive = True,
                        time_to_die = 2, response_buffer = 105, opaque_state = 0\<rparr>),
               death_time := 1,
               trace := trace one_queued @ [Epoll_wait 1000, Epoll_ctl_del 5, Epoll_wait 1000]\<rparr>"

text \<open>
  The same server with room for a single fd per worker, and its worker after a first
  keep-alive request on fd 5: the death queue is full.
\<close>

definition single_lwan :: lwan where
  "single_lwan = sample_lwan\<lparr>thread_max_fd := 1\<rparr>"

definition single_full :: thread_state where
  "single_full =
     \<lparr>requests = sample_requests
        (5 := \<lparr>request_fd = 5, flags_alive = True, flags_is_keep_alive = True,
               time_to_die = 2, response_buffer = 105, opaque_state = 0\<rparr>),
      death_queue = [5],
      death_queue_last = 0, death_queue_first = 0, death_queue_population = 1,
      death_time = 0,
      trace =
        [Epoll_wait (- 1), Strbuf_reset 105,
         Lwan_process_request
           \<lparr>request_fd = 5, flags_alive = False, flags_is_keep_alive = False,
            time_to_die = 0, response_buffer = 105, opaque_state = 0\<rparr>]\<rparr>"

text \<open>The same server with three workers.\<close>

definition three_workers :: lwan where
  "three_workers = sample_lwan\<lparr>thread_count := 3\<rparr>"





text \<open>
  A start of the server on a machine with four processors and an open-files limit of
  10, soft and hard; the buffer allocated for slot \<open>i\<close> is at address \<open>100 + i\<close>.
\<close>

definition sample_init :: init_env where
  "sample_init =
     \<lparr>sysconf_ret = 4, getrlimit_ret = 0, rlim_cur0 = 10, rlim_max0 = 10,
      setrlimit_ret = 0, strbuf_new_ret = (\<lambda>i. 100 + i)\<rparr>"

section \<open>Auxiliary facts\<close>

subsection \<open>The circular buffer and the reaping loop\<close>

lemma queue_entries_Cons:
  assumes "death_queue_population t \<noteq> 0" "death_queue_first t < thread_max_fd l"
  shows "queue_entries l t =
           death_queue t ! death_queue_first t #
           queue_entries l (t\<lparr>death_queue_first := (death_queue_first t + 1) mod thread_max_fd l,
                              death_queue_population := death_queue_population t - 1,
                              requests := rs, trace := tr\<rparr>)"
proof -
  obtain p where p: "death_queue_population t = Suc p"
    using assms(1) by (cases "death_queue_population t") auto
  have "[0..<Suc p] = 0 # map Suc [0..<p]"
    by (simp add: upt_conv_Cons map_Suc_upt del: upt_Suc)
  then show ?thesis
    using assms(2) by (simp add: queue_entries_def p mod_add_left_eq o_def del: upt_Suc)
qed

lemma reap_eq:
  "death_queue_first t < thread_max_fd l \<Longrightarrow>
   reap l t =
     t\<lparr>death_queue_first := (death_queue_first t + length (reaped l t)) mod thread_max_fd l,
       death_queue_population := death_queue_population t - length (reaped l t),
       requests := (\<lambda>i. if i \<in> set (reaped l t) then (requests t i)\<lparr>flags_alive := False\<rparr>
                         else requests t i),
       trace := trace t @ map (\<lambda>i. Close (request_fd (requests t i))) (reaped l t)\<rparr>"
proof (induction l t rule: reap.induct)
  case (1 l t)
  let ?i = "death_queue t ! death_queue_first t"
  let ?t1 = "t\<lparr>death_queue_first := (death_queue_first t + 1) mod thread_max_fd l,
               death_queue_population := death_queue_population t - 1,
               requests := (requests t)(?i := (requests t ?i)\<lparr>flags_alive := False\<rparr>),
               trace := trace t @ [Close (request_fd (requests t ?i))]\<rparr>"
  show ?case
  proof (cases "death_queue_population t \<noteq> 0 \<and> expired t ?i")
    case False
    have "reaped l t = []"
    proof (cases "death_queue_population t = 0")
      case True
      then show ?thesis by (simp add: reaped_def queue_entries_def)
    next
      case pop: False
      with False have "\<not> expired t ?i" by simp
      then show ?thesis
        by (simp add: reaped_def queue_entries_Cons [where rs = "requests t" and tr = "trace t", OF pop "1.prems"])
    qed
    moreover have "reap l t = t"
      using False by (subst reap.simps) (auto simp: expired_def Let_def)
    ultimately show ?thesis using "1.prems" by simp
  next
    case True
    then have pop: "death_queue_population t \<noteq> 0" and ex: "expired t ?i" by auto
    have m: "death_queue_first ?t1 < thread_max_fd l"
      using "1.prems" by simp
    have ex1: "expired ?t1 = expired t"
      by (rule ext) (simp add: expired_def)
    have q: "queue_entries l t = ?i # queue_entries l ?t1"
      using queue_entries_Cons [OF pop "1.prems"] by simp
    have r: "reaped l t = ?i # reaped l ?t1"
      unfolding reaped_def ex1 by (subst q) (simp add: ex)
    have step: "reap l t = reap l ?t1"
      using pop ex by (subst reap.simps) (simp add: expired_def Let_def)
    have ih: "reap l ?t1 =
       ?t1\<lparr>death_queue_first := (death_queue_first ?t1 + length (reaped l ?t1)) mod thread_max_fd l,
         death_queue_population := death_queue_population ?t1 - length (reaped l ?t1),
         requests := (\<lambda>i. if i \<in> set (reaped l ?t1) then (requests ?t1 i)\<lparr>flags_alive := False\<rparr>
                         else requests ?t1 i),
         trace := trace ?t1 @ map (\<lambda>i. Close (request_fd (requests ?t1 i))) (reaped l ?t1)\<rparr>"
      using "1.IH" [OF pop refl refl _ m] ex by (simp add: expired_def)
    have rq: "(\<lambda>i. if i \<in> set (reaped l ?t1) then (requests ?t1 i)\<lparr>flags_alive := False\<rparr>
                         else requests ?t1 i) =
              (\<lambda>i. if i \<in> set (reaped l t) then (requests t i)\<lparr>flags_alive := False\<rparr>
                         else requests t i)"
      by (rule ext) (simp add: r)
    have tr: "map (\<lambda>i. Close (request_fd (requests ?t1 i))) (reaped l ?t1) =
              map (\<lambda>i. Close (request_fd (requests t i))) (reaped l ?t1)"
      by (rule map_cong) simp_all
    show ?thesis
      unfolding step ih rq tr by (simp add: r mod_Suc_eq mod_add_left_eq)
  qed
qed


lemma queue_entries_reap:
  assumes "death_queue_first t < thread_max_fd l"
  shows "queue_entries l (reap l t) = drop (length (reaped l t)) (queue_entries l t)"
proof (rule nth_equalityI)
  show "length (queue_entries l (reap l t)) = length (drop (length (reaped l t)) (queue_entries l t))"
    by (subst reap_eq [OF assms]) (simp add: queue_entries_def)
next
  fix k
  assume "k < length (queue_entries l (reap l t))"
  then have k: "k < death_queue_population t - length (reaped l t)"
    by (subst (asm) reap_eq [OF assms]) (simp add: queue_entries_def)
  then have "length (reaped l t) + k < death_queue_population t"
    by arith
  with k show "queue_entries l (reap l t) ! k = drop (length (reaped l t)) (queue_entries l t) ! k"
    by (subst reap_eq [OF assms]) (simp add: queue_entries_def mod_add_left_eq add.assoc)
qed

subsection \<open>The paths through one iteration\<close>

lemma reap_empty: "death_queue_population t = 0 \<Longrightarrow> reap l t = t"
  by (subst reap.simps) simp

lemma reap_stop:
  "death_queue_population t \<noteq> 0 \<Longrightarrow> \<not> expired t (death_queue t ! death_queue_first t) \<Longrightarrow>
   reap l t = t"
  by (subst reap.simps) (simp add: expired_def Let_def)

lemma reap_step:
  "death_queue_population t \<noteq> 0 \<Longrightarrow> expired t (death_queue t ! death_queue_first t) \<Longrightarrow>
   reap l t =
     reap l (t\<lparr>death_queue_first := (death_queue_first t + 1) mod thread_max_fd l,
               death_queue_population := death_queue_population t - 1,
               requests := (requests t)(death_queue t ! death_queue_first t :=
                  (requests t (death_queue t ! death_queue_first t))\<lparr>flags_alive := False\<rparr>),
               trace := trace t @
                  [Close (request_fd (requests t (death_queue t ! death_queue_first t)))]\<rparr>)"
  by (subst reap.simps) (simp add: expired_def Let_def)

lemma handle_event_hangup:
  "is_hangup r \<Longrightarrow>
   handle_event l t r =
     t\<lparr>requests := (requests t)(data_fd (event r) :=
                    (requests t (data_fd (event r)))\<lparr>flags_alive := False\<rparr>),
       trace := trace t @ Epoll_ctl_del (data_fd (event r)) #
                  (if epoll_ctl_ret r < 0 then [Perror ''epoll_ctl''] else [])\<rparr>"
  by (simp add: handle_event_def Let_def)

lemma handle_event_append:
  "\<not> is_hangup r \<Longrightarrow> flags_is_keep_alive (processed_request t r) \<Longrightarrow>
   \<not> flags_alive (processed_request t r) \<Longrightarrow>
   handle_event l t r =
     t\<lparr>death_queue := (death_queue t)[death_queue_last t := data_fd (event r)],
       death_queue_last := (death_queue_last t + 1) mod thread_max_fd l,
       death_queue_population := death_queue_population t + 1,
       requests := (requests t)(data_fd (event r) :=
         (processed_request t r)\<lparr>time_to_die := death_time t + keep_alive_timeout l,
                                  flags_alive := True\<rparr>),
       trace := trace t @
         (if flags_alive (requests t (data_fd (event r))) then []
          else [Strbuf_reset (response_buffer (requests t (data_fd (event r))))]) @
         [Lwan_process_request (handed_request t r)]\<rparr>"
  by (cases "flags_alive (requests t (data_fd (event r)))")
    (simp_all add: handle_event_def keep_alive_branch_def processed_request_def
      handed_request_def reset_request_def Let_def)

lemma handle_event_update:
  "\<not> is_hangup r \<Longrightarrow> flags_is_keep_alive (processed_request t r) \<Longrightarrow>
   flags_alive (processed_request t r) \<Longrightarrow>
   handle_event l t r =
     t\<lparr>requests := (requests t)(data_fd (event r) :=
         (processed_request t r)\<lparr>time_to_die := death_time t + keep_alive_timeout l\<rparr>),
       trace := trace t @
         (if flags_alive (requests t (data_fd (event r))) then []
          else [Strbuf_reset (response_buffer (requests t (data_fd (event r))))]) @
         [Lwan_process_request (handed_request t r)]\<rparr>"
  by (cases "flags_alive (requests t (data_fd (event r)))")
    (simp_all add: handle_event_def keep_alive_branch_def processed_request_def
      handed_request_def reset_request_def Let_def)

lemma handle_event_close:
  "\<not> is_hangup r \<Longrightarrow> \<not> flags_is_keep_alive (processed_request t r) \<Longrightarrow>
   handle_event l t r =
     t\<lparr>requests := (requests t)(data_fd (event r) :=
         (processed_request t r)\<lparr>flags_alive := False\<rparr>),
       trace := trace t @
         (if flags_alive (requests t (data_fd (event r))) then []
          else [Strbuf_reset (response_buffer (requests t (data_fd (event r))))]) @
         [Lwan_process_request (handed_request t r), Close (data_fd (event r))]\<rparr>"
  by (cases "flags_alive (requests t (data_fd (event r)))")
    (simp_all add: handle_event_def keep_alive_branch_def processed_request_def
      handed_request_def reset_request_def Let_def)

lemma thread_iteration_timeout:
  "thread_iteration l t (Returned []) =
     Inr (reap l (t\<lparr>trace := trace t @ [Epoll_wait (wait_timeout t)],
                    death_time := death_time t + 1\<rparr>))"
  by (simp add: thread_iteration_def)

lemma thread_iteration_ready:
  "thread_iteration l t (Returned (r # rs)) =
     Inr (foldl (handle_event l) (t\<lparr>trace := trace t @ [Epoll_wait (wait_timeout t)]\<rparr>) (r # rs))"
  by (simp add: thread_iteration_def)

subsection \<open>Evaluation on the sample inputs\<close>

lemma hangup_is_hangup: "is_hangup (hangup i)"
  by (simp add: is_hangup_def hangup_def EPOLLIN_def EPOLLRDHUP_def EPOLLHUP_def)

lemma keep_alive_request_no_hangup: "\<not> is_hangup (keep_alive_request i)"
  by (simp add: is_hangup_def keep_alive_request_def EPOLLIN_def EPOLLRDHUP_def EPOLLHUP_def)

lemma last_request_no_hangup: "\<not> is_hangup (last_request i)"
  by (simp add: is_hangup_def last_request_def EPOLLIN_def EPOLLRDHUP_def EPOLLHUP_def)

lemma expired_unat:
  "expired t i = (unat (time_to_die (requests t i)) \<le> unat (death_time t))"
  by (simp add: expired_def word_le_nat_alt)

lemmas iteration_simps =
  thread_iteration_timeout thread_iteration_ready
  handle_event_hangup handle_event_append handle_event_update handle_event_close
  reap_empty reap_stop reap_step expired_unat wait_timeout_def
  processed_request_def handed_request_def reset_request_def zeroed_request_def
  is_hangup_def EPOLLIN_def EPOLLRDHUP_def EPOLLHUP_def

lemma sample_start:
  "thread_start sample_lwan sample_requests =
     \<lparr>requests = sample_requests, death_queue = [0, 0, 0, 0],
      death_queue_last = 0, death_queue_first = 0, death_queue_population = 0,
      death_time = 0, trace = []\<rparr>"
  by (simp add: thread_start_def sample_lwan_def eval_nat_numeral)

lemma sample_lwan_fields:
  "thread_max_fd sample_lwan = 4" "keep_alive_timeout sample_lwan = 2"
  "thread_count sample_lwan = 2"
  by (simp_all add: sample_lwan_def)

lemma sample_requests_apply:
  "sample_requests i =
     \<lparr>request_fd = 0, flags_alive = False, flags_is_keep_alive = False,
      time_to_die = 0, response_buffer = 100 + nat i, opaque_state = 0\<rparr>"
  by (simp add: sample_requests_def zeroed_request_def)

lemmas sample_simps =
  keep_alive_request_def last_request_def hangup_def sample_requests_apply
  one_queued_def queued_state_def sample_start sample_lwan_fields

lemma first_request:
  "thread_iteration sample_lwan (thread_start sample_lwan sample_requests)
     (Returned [keep_alive_request 5]) = Inr one_queued"
  by (simp add: iteration_simps sample_simps)

lemma idle_second:
  "thread_iteration sample_lwan one_queued (Returned []) =
     Inr (one_queued\<lparr>death_time := 1, trace := trace one_queued @ [Epoll_wait 1000]\<rparr>)"
  by (simp add: iteration_simps sample_simps)

lemma second_connection:
  "thread_iteration sample_lwan
     (one_queued\<lparr>death_time := 1, trace := trace one_queued @ [Epoll_wait 1000]\<rparr>)
     (Returned [keep_alive_request 6]) = Inr queued_state"
  by (simp add: iteration_simps sample_simps)

lemma queued_state_reached:
  "thread_run sample_lwan (thread_start sample_lwan sample_requests)
     [Returned [keep_alive_request 5], Returned [], Returned [keep_alive_request 6]] =
   Inr queued_state"
  by (simp only: thread_run.simps first_request idle_second second_connection sum.case)

lemma queue_entries_queued_state: "queue_entries sample_lwan queued_state = [5, 6]"
  by (simp add: queue_entries_def queued_state_def sample_lwan_def upt_conv_Cons)

lemma stale_head_reached:
  "thread_run sample_lwan (thread_start sample_lwan sample_requests)
     [Returned [keep_alive_request 5], Returned [hangup 5], Returned []] = Inr stale_head"
proof -
  let ?h1 = "one_queued\<lparr>requests := (requests one_queued)
                 (5 := \<lparr>request_fd = 5, flags_alive = False, flags_is_keep_alive = True,
                        time_to_die = 2, response_buffer = 105, opaque_state = 0\<rparr>),
               trace := trace one_queued @ [Epoll_wait 1000, Epoll_ctl_del 5]\<rparr>"
  have 1: "thread_iteration sample_lwan one_queued (Returned [hangup 5]) = Inr ?h1"
    by (simp add: iteration_simps sample_simps)
  have 2: "thread_iteration sample_lwan ?h1 (Returned []) = Inr stale_head"
    by (simp add: iteration_simps sample_simps stale_head_def)
  show ?thesis
    by (simp only: thread_run.simps first_request 1 2 sum.case)
qed

lemma single_lwan_fields:
  "thread_max_fd single_lwan = 1" "keep_alive_timeout single_lwan = 2"
  by (simp_all add: single_lwan_def sample_lwan_def)

lemma single_start:
  "thread_start single_lwan sample_requests =
     \<lparr>requests = sample_requests, death_queue = [0],
      death_queue_last = 0, death_queue_first = 0, death_queue_population = 0,
      death_time = 0, trace = []\<rparr>"
  by (simp add: thread_start_def single_lwan_fields)

lemma single_first_request:
  "thread_run single_lwan (thread_start single_lwan sample_requests)
     [Returned [keep_alive_request 5]] = Inr single_full"
  by (simp add: iteration_simps single_start single_lwan_fields keep_alive_request_def
      sample_requests_apply single_full_def)

subsection \<open>The trace only grows\<close>

lemma handle_event_trace: "\<exists>cs. trace (handle_event l t r) = trace t @ cs"
  by (simp add: handle_event_def keep_alive_branch_def Let_def split: prod.split)

lemma handle_events_trace: "\<exists>cs. trace (foldl (handle_event l) t rs) = trace t @ cs"
proof (induction rs arbitrary: t)
  case Nil
  show ?case by simp
next
  case (Cons r rs)
  obtain cs where "trace (handle_event l t r) = trace t @ cs"
    using handle_event_trace by blast
  moreover obtain ds where
    "trace (foldl (handle_event l) (handle_event l t r) rs) = trace (handle_event l t r) @ ds"
    using Cons.IH by blast
  ultimately show ?case by simp
qed

lemma reap_trace:
  "death_queue_first t < thread_max_fd l \<Longrightarrow>
   trace (reap l t) = trace t @ map (\<lambda>i. Close (request_fd (requests t i))) (reaped l t)"
  by (subst reap_eq) simp_all

lemma reap_population:
  "death_queue_first t < thread_max_fd l \<Longrightarrow>
   death_queue_population (reap l t) = death_queue_population t - length (reaped l t)"
  by (subst reap_eq) simp_all

lemma iteration_waits:
  assumes "death_queue_first t < thread_max_fd l"
  shows "\<exists>t' cs. (thread_iteration l t w = Inl t' \<or> thread_iteration l t w = Inr t') \<and>
           trace t' = trace t @ Epoll_wait (wait_timeout t) # cs"
proof (cases w)
  case (Failed errno)
  then show ?thesis by (auto simp: thread_iteration_def Let_def)
next
  case (Returned rs)
  show ?thesis
  proof (cases rs)
    case Nil
    have "death_queue_first (t\<lparr>trace := trace t @ [Epoll_wait (wait_timeout t)],
            death_time := death_time t + 1\<rparr>) < thread_max_fd l"
      using assms by simp
    from reap_trace [OF this] show ?thesis
      by (simp add: thread_iteration_def Returned Nil)
  next
    case (Cons r rs')
    obtain cs where "trace (foldl (handle_event l)
        (t\<lparr>trace := trace t @ [Epoll_wait (wait_timeout t)]\<rparr>) (r # rs')) =
        trace (t\<lparr>trace := trace t @ [Epoll_wait (wait_timeout t)]\<rparr>) @ cs"
      using handle_events_trace by blast
    then show ?thesis
      by (simp add: thread_iteration_def Returned Cons)
  qed
qed

subsection \<open>Timeouts and the entries they close\<close>

lemma timeout_step:
  assumes "death_queue_first t < thread_max_fd l"
  shows "\<exists>t'. thread_iteration l t (Returned []) = Inr t' \<and>
           trace t' = trace t @ Epoll_wait (wait_timeout t) #
             map (\<lambda>j. Close (request_fd (requests t j)))
               (takeWhile (\<lambda>j. time_to_die (requests t j) \<le> death_time t + 1) (queue_entries l t)) \<and>
           queue_entries l t' =
             dropWhile (\<lambda>j. time_to_die (requests t j) \<le> death_time t + 1) (queue_entries l t) \<and>
           requests t' =
             (\<lambda>j. if j \<in> set (takeWhile (\<lambda>j. time_to_die (requests t j) \<le> death_time t + 1)
                                 (queue_entries l t))
                  then (requests t j)\<lparr>flags_alive := False\<rparr> else requests t j) \<and>
           death_queue_population t' =
             death_queue_population t -
             length (takeWhile (\<lambda>j. time_to_die (requests t j) \<le> death_time t + 1)
                       (queue_entries l t)) \<and>
           death_queue_first t' < thread_max_fd l"
proof -
  let ?t0 = "t\<lparr>trace := trace t @ [Epoll_wait (wait_timeout t)],
               death_time := death_time t + 1\<rparr>"
  let ?P = "\<lambda>j. time_to_die (requests t j) \<le> death_time t + 1"
  have it: "thread_iteration l t (Returned []) = Inr (reap l ?t0)"
    by (simp add: thread_iteration_def)
  have f: "death_queue_first ?t0 < thread_max_fd l"
    using assms by simp
  have q0: "queue_entries l ?t0 = queue_entries l t"
    by (simp add: queue_entries_def)
  have ex: "expired ?t0 = ?P"
    by (rule ext) (simp add: expired_def)
  have r: "reaped l ?t0 = takeWhile ?P (queue_entries l t)"
    by (simp add: reaped_def q0 ex)
  have q: "queue_entries l (reap l ?t0) = dropWhile ?P (queue_entries l t)"
    using queue_entries_reap [OF f] by (simp add: r q0 dropWhile_eq_drop)
  have tr: "trace (reap l ?t0) = trace t @ Epoll_wait (wait_timeout t) #
              map (\<lambda>j. Close (request_fd (requests t j))) (takeWhile ?P (queue_entries l t))"
    by (subst reap_eq [OF f]) (simp add: r)
  have rq: "requests (reap l ?t0) =
              (\<lambda>j. if j \<in> set (takeWhile ?P (queue_entries l t))
                   then (requests t j)\<lparr>flags_alive := False\<rparr> else requests t j)"
    by (subst reap_eq [OF f]) (simp add: r cong: if_cong)
  have po: "death_queue_population (reap l ?t0) =
              death_queue_population t - length (takeWhile ?P (queue_entries l t))"
    by (subst reap_eq [OF f]) (simp add: r)
  have fi: "death_queue_first (reap l ?t0) < thread_max_fd l"
    using assms by (subst reap_eq [OF f]) simp
  from it tr q rq po fi show ?thesis by blast
qed

lemma timeouts_close_queued:
  assumes "death_queue_first t < thread_max_fd l"
  shows "\<exists>t' cs. thread_run l t (replicate n (Returned [])) = Inr t' \<and>
           trace t' = trace t @ cs \<and>
           (\<forall>c \<in> set cs. (\<exists>x. c = Epoll_wait x) \<or>
              (\<exists>j \<in> set (queue_entries l t). c = Close (request_fd (requests t j))))"
  using assms
proof (induction n arbitrary: t)
  case 0
  show ?case by simp
next
  case (Suc n)
  let ?P = "\<lambda>j. time_to_die (requests t j) \<le> death_time t + 1"
  let ?q = "queue_entries l t"
  obtain t1 where it: "thread_iteration l t (Returned []) = Inr t1"
    and tr: "trace t1 = trace t @ Epoll_wait (wait_timeout t) #
             map (\<lambda>j. Close (request_fd (requests t j))) (takeWhile ?P ?q)"
    and qe: "queue_entries l t1 = dropWhile ?P ?q"
    and rq: "requests t1 =
             (\<lambda>j. if j \<in> set (takeWhile ?P ?q)
                  then (requests t j)\<lparr>flags_alive := False\<rparr> else requests t j)"
    and fi: "death_queue_first t1 < thread_max_fd l"
    using timeout_step [OF Suc.prems] by blast
  obtain t' cs where run: "thread_run l t1 (replicate n (Returned [])) = Inr t'"
    and tr': "trace t' = trace t1 @ cs"
    and cl: "\<forall>c \<in> set cs. (\<exists>x. c = Epoll_wait x) \<or>
              (\<exists>j \<in> set (queue_entries l t1). c = Close (request_fd (requests t1 j)))"
    using Suc.IH [OF fi] by blast
  let ?cs = "Epoll_wait (wait_timeout t) #
             map (\<lambda>j. Close (request_fd (requests t j))) (takeWhile ?P ?q) @ cs"
  have fd: "request_fd (requests t1 j) = request_fd (requests t j)" for j
    by (simp add: rq)
  have 1: "thread_run l t (replicate (Suc n) (Returned [])) = Inr t'"
    by (simp add: it run)
  have 2: "trace t' = trace t @ ?cs"
    by (simp add: tr' tr)
  have 3: "(\<exists>x. c = Epoll_wait x) \<or>
           (\<exists>j \<in> set ?q. c = Close (request_fd (requests t j)))" if "c \<in> set ?cs" for c
  proof -
    from that consider "c = Epoll_wait (wait_timeout t)"
      | j where "j \<in> set (takeWhile ?P ?q)" "c = Close (request_fd (requests t j))"
      | "c \<in> set cs"
      by auto
    then show ?thesis
    proof cases
      case 1
      then show ?thesis by blast
    next
      case 2
      then show ?thesis using set_takeWhileD [of j ?P ?q] by blast
    next
      case 3
      with cl have "(\<exists>x. c = Epoll_wait x) \<or>
              (\<exists>j \<in> set (dropWhile ?P ?q). c = Close (request_fd (requests t j)))"
        by (simp add: qe fd)
      then show ?thesis using set_dropWhileD [of _ ?P ?q] by blast
    qed
  qed
  from 1 2 3 show ?case by blast
qed

lemma count_list_once:
  assumes "k < length xs" "xs ! k = x" "\<And>m. m < length xs \<Longrightarrow> m \<noteq> k \<Longrightarrow> xs ! m \<noteq> x"
  shows "count_list xs x = 1"
proof -
  have xs: "xs = take k xs @ x # drop (Suc k) xs"
    using id_take_nth_drop [OF assms(1)] unfolding assms(2) .
  have a: "x \<notin> set (take k xs)"
  proof
    assume "x \<in> set (take k xs)"
    then obtain m where "m < length (take k xs)" "take k xs ! m = x"
      by (auto simp: in_set_conv_nth)
    then have "m < length xs" "m \<noteq> k" "xs ! m = x" using assms(1) by simp_all
    then show False using assms(3) by blast
  qed
  have b: "x \<notin> set (drop (Suc k) xs)"
  proof
    assume "x \<in> set (drop (Suc k) xs)"
    then obtain m where "m < length (drop (Suc k) xs)" "drop (Suc k) xs ! m = x"
      by (auto simp: in_set_conv_nth)
    then have "Suc k + m < length xs" "Suc k + m \<noteq> k" "xs ! (Suc k + m) = x" by simp_all
    then show False using assms(3) by blast
  qed
  have "count_list xs x = count_list (take k xs) x + count_list (x # drop (Suc k) xs) x"
    by (subst xs) simp
  also have "\<dots> = 1"
    using a b by (simp add: count_list_0_iff)
  finally show ?thesis .
qed

subsection \<open>The circular buffer stays well formed\<close>

lemma queue_consistent_start:
  "0 < thread_max_fd l \<Longrightarrow> queue_consistent l (thread_start l rs)"
  by (simp add: queue_consistent_def thread_start_def)

lemma queue_consistent_handle_event:
  assumes "0 < thread_max_fd l" and "queue_consistent l t"
  shows "queue_consistent l (handle_event l t r)"
proof (cases "is_hangup r")
  case True
  then show ?thesis
    using assms(2) by (simp add: handle_event_hangup queue_consistent_def)
next
  case False
  show ?thesis
  proof (cases "flags_is_keep_alive (processed_request t r)")
    case ka: True
    show ?thesis
    proof (cases "flags_alive (processed_request t r)")
      case True
      then show ?thesis
        using assms(2) False ka by (simp add: handle_event_update queue_consistent_def)
    next
      case na: False
      then show ?thesis
        using assms False ka
        by (simp add: handle_event_append queue_consistent_def mod_Suc_eq)
    qed
  next
    case nk: False
    then show ?thesis
      using assms(2) False by (simp add: handle_event_close queue_consistent_def)
  qed
qed

lemma queue_consistent_handle_events:
  "0 < thread_max_fd l \<Longrightarrow> queue_consistent l t \<Longrightarrow>
   queue_consistent l (foldl (handle_event l) t rs)"
  by (induction rs arbitrary: t) (simp_all add: queue_consistent_handle_event)

lemma queue_consistent_reap:
  "0 < thread_max_fd l \<Longrightarrow> queue_consistent l t \<Longrightarrow> queue_consistent l (reap l t)"
proof (induction l t rule: reap.induct)
  case (1 l t)
  show ?case
  proof (cases "death_queue_population t \<noteq> 0 \<and> expired t (death_queue t ! death_queue_first t)")
    case False
    then have "reap l t = t"
      by (cases "death_queue_population t = 0") (simp_all add: reap_empty reap_stop)
    with "1.prems" show ?thesis by simp
  next
    case True
    let ?t1 = "t\<lparr>death_queue_first := (death_queue_first t + 1) mod thread_max_fd l,
               death_queue_population := death_queue_population t - 1,
               requests := (requests t)(death_queue t ! death_queue_first t :=
                  (requests t (death_queue t ! death_queue_first t))\<lparr>flags_alive := False\<rparr>),
               trace := trace t @
                  [Close (request_fd (requests t (death_queue t ! death_queue_first t)))]\<rparr>"
    obtain p where p: "death_queue_population t = Suc p"
      using True by (cases "death_queue_population t") auto
    have "(Suc (death_queue_first t) mod thread_max_fd l + (death_queue_population t - 1)) mod thread_max_fd l
            = (death_queue_first t + death_queue_population t) mod thread_max_fd l"
      by (simp add: p mod_add_left_eq)
    then have c: "queue_consistent l ?t1"
      using "1.prems" by (simp add: queue_consistent_def)
    have "reap l t = reap l ?t1"
      using True by (simp add: reap_step)
    moreover have "queue_consistent l (reap l ?t1)"
      using "1.IH" [OF _ refl refl _ "1.prems"(1) c] True by (simp add: expired_def)
    ultimately show ?thesis by simp
  qed
qed

lemma queue_consistent_iteration:
  assumes "0 < thread_max_fd l" and "queue_consistent l t"
    and "thread_iteration l t w = Inr t'"
  shows "queue_consistent l t'"
proof (cases w)
  case (Failed errno)
  then show ?thesis
    using assms(2,3) by (auto simp: thread_iteration_def Let_def queue_consistent_def split: if_splits)
next
  case (Returned rs)
  show ?thesis
  proof (cases rs)
    case Nil
    have "queue_consistent l (t\<lparr>trace := trace t @ [Epoll_wait (wait_timeout t)],
             death_time := death_time t + 1\<rparr>)"
      using assms(2) by (simp add: queue_consistent_def)
    from queue_consistent_reap [OF assms(1) this] show ?thesis
      using assms(3) by (simp add: Returned Nil thread_iteration_timeout)
  next
    case (Cons r rs')
    have "queue_consistent l (t\<lparr>trace := trace t @ [Epoll_wait (wait_timeout t)]\<rparr>)"
      using assms(2) by (simp add: queue_consistent_def)
    from queue_consistent_handle_events [OF assms(1) this, of "r # rs'"] show ?thesis
      using assms(3) unfolding Returned Cons thread_iteration_ready by simp
  qed
qed

lemma queue_consistent_run:
  "0 < thread_max_fd l \<Longrightarrow> queue_consistent l t \<Longrightarrow> thread_run l t ws = Inr t' \<Longrightarrow>
   queue_consistent l t'"
proof (induction ws arbitrary: t)
  case Nil
  then show ?case by simp
next
  case (Cons w ws)
  then show ?case
    by (auto split: sum.splits dest: queue_consistent_iteration)
qed

subsection \<open>Appends keep the deadlines in order\<close>

lemma mod_add_neq:
  fixes a k p m :: nat
  assumes "k < p" "p < m"
  shows "(a + k) mod m \<noteq> (a + p) mod m"
proof
  assume "(a + k) mod m = (a + p) mod m"
  then have "(a + p) mod m = (a + k) mod m" by simp
  then have "m dvd (a + p) - (a + k)"
    using assms(1) by (subst (asm) mod_eq_dvd_iff_nat) simp_all
  then have "m dvd p - k" by simp
  moreover have "0 < p - k" "p - k < m" using assms by auto
  ultimately show False
    using nat_dvd_not_less by blast
qed

lemma queue_entries_append:
  assumes "queue_consistent l t" and "death_queue_population t < thread_max_fd l"
  shows "queue_entries l
           (t\<lparr>death_queue := (death_queue t)[death_queue_last t := i],
              death_queue_last := x,
              death_queue_population := death_queue_population t + 1,
              requests := rq, trace := tr\<rparr>) = queue_entries l t @ [i]"
proof -
  let ?m = "thread_max_fd l"
  have last: "death_queue_last t = (death_queue_first t + death_queue_population t) mod ?m"
    and len: "length (death_queue t) = ?m"
    using assms(1) by (simp_all add: queue_consistent_def)
  have m: "0 < ?m" using assms(2) by simp
  have old: "(death_queue t)[death_queue_last t := i] ! ((death_queue_first t + k) mod ?m) =
             death_queue t ! ((death_queue_first t + k) mod ?m)"
    if "k < death_queue_population t" for k
    using mod_add_neq [OF that assms(2), of "death_queue_first t"] by (simp add: last)
  have new: "(death_queue t)[death_queue_last t := i] !
               ((death_queue_first t + death_queue_population t) mod ?m) = i"
    using m by (simp add: last len)
  show ?thesis
    by (simp add: queue_entries_def old new)
qed

lemma deadlines_ordered_trace [simp]:
  "deadlines_ordered l (t\<lparr>trace := tr\<rparr>) = deadlines_ordered l t"
  by (simp add: deadlines_ordered_def queue_consistent_def queue_deadlines_def queue_entries_def)

lemma queue_deadlines_unchanged:
  assumes "death_queue t' = death_queue t" "death_queue_first t' = death_queue_first t"
    "death_queue_population t' = death_queue_population t"
    "\<And>j. j \<in> set (queue_entries l t) \<Longrightarrow> time_to_die (requests t' j) = time_to_die (requests t j)"
  shows "queue_entries l t' = queue_entries l t" "queue_deadlines l t' = queue_deadlines l t"
proof -
  show q: "queue_entries l t' = queue_entries l t"
    using assms(1-3) by (simp add: queue_entries_def)
  show "queue_deadlines l t' = queue_deadlines l t"
    unfolding queue_deadlines_def q using assms(4) by (simp cong: map_cong)
qed

lemma deadlines_ordered_unchanged:
  assumes "deadlines_ordered l t" "queue_consistent l t'"
    "death_queue t' = death_queue t" "death_queue_first t' = death_queue_first t"
    "death_queue_population t' = death_queue_population t"
    "death_time t' = death_time t"
    "\<And>j. j \<in> set (queue_entries l t) \<Longrightarrow> time_to_die (requests t' j) = time_to_die (requests t j)"
  shows "deadlines_ordered l t'"
  using assms(1,2,5,6,7) queue_deadlines_unchanged [OF assms(3,4,5,7)]
  by (simp add: deadlines_ordered_def)

lemma deadlines_ordered_handle_event:
  assumes m: "0 < thread_max_fd l"
    and inv: "deadlines_ordered l t"
    and no: "unat (death_time t) + unat (keep_alive_timeout l) < 2 ^ 32"
    and fresh: "is_hangup r \<or>
       (data_fd (event r) \<notin> set (queue_entries l t) \<and>
        death_queue_population t < thread_max_fd l)"
  shows "deadlines_ordered l (handle_event l t r) \<and>
         death_time (handle_event l t r) = death_time t"
proof -
  have c: "queue_consistent l t"
    using inv by (simp add: deadlines_ordered_def)
  have c': "queue_consistent l (handle_event l t r)"
    using queue_consistent_handle_event [OF m c] .
  show ?thesis
  proof (cases "is_hangup r")
    case True
    have "deadlines_ordered l (handle_event l t r)"
      by (rule deadlines_ordered_unchanged [OF inv c']) (simp_all add: handle_event_hangup True)
    then show ?thesis by (simp add: handle_event_hangup True)
  next
    case False
    with fresh have notin: "data_fd (event r) \<notin> set (queue_entries l t)"
      and room: "death_queue_population t < thread_max_fd l" by auto
    show ?thesis
    proof (cases "flags_is_keep_alive (processed_request t r)")
      case nk: False
      have "deadlines_ordered l (handle_event l t r)"
        by (rule deadlines_ordered_unchanged [OF inv c'])
          (use notin in \<open>auto simp: handle_event_close False nk\<close>)
      then show ?thesis by (simp add: handle_event_close False nk)
    next
      case ka: True
      show ?thesis
      proof (cases "flags_alive (processed_request t r)")
        case True
        have "deadlines_ordered l (handle_event l t r)"
          by (rule deadlines_ordered_unchanged [OF inv c'])
            (use notin in \<open>auto simp: handle_event_update False ka True\<close>)
        then show ?thesis by (simp add: handle_event_update False ka True)
      next
        case na: False
        let ?t' = "handle_event l t r"
        let ?i = "data_fd (event r)"
        let ?d = "death_time t + keep_alive_timeout l"
        have eq: "?t' = t\<lparr>death_queue := (death_queue t)[death_queue_last t := ?i],
            death_queue_last := (death_queue_last t + 1) mod thread_max_fd l,
            death_queue_population := death_queue_population t + 1,
            requests := (requests t)(?i :=
               (processed_request t r)\<lparr>time_to_die := ?d, flags_alive := True\<rparr>),
            trace := trace t @
              (if flags_alive (requests t ?i) then []
               else [Strbuf_reset (response_buffer (requests t ?i))]) @
              [Lwan_process_request (handed_request t r)]\<rparr>"
          using handle_event_append [OF False ka na] .
        have q: "queue_entries l ?t' = queue_entries l t @ [?i]"
          unfolding eq by (rule queue_entries_append [OF c room])
        have new: "time_to_die (requests ?t' ?i) = ?d"
          by (simp add: eq)
        have old: "time_to_die (requests ?t' j) = time_to_die (requests t j)"
          if "j \<in> set (queue_entries l t)" for j
          using that notin by (auto simp: eq)
        have ud: "unat ?d = unat (death_time t) + unat (keep_alive_timeout l)"
          using no by (simp add: unat_add_lem [THEN iffD1])
        have d: "queue_deadlines l ?t' = queue_deadlines l t @ [unat ?d]"
          unfolding queue_deadlines_def q using old new by (simp cong: map_cong)
        have bound: "\<forall>x \<in> set (queue_deadlines l t). x \<le> unat ?d"
          using inv by (auto simp: deadlines_ordered_def queue_deadlines_def ud)
        have s: "sorted (queue_deadlines l ?t')"
          using inv bound by (simp add: d sorted_append deadlines_ordered_def)
        have dt: "death_time ?t' = death_time t"
          by (simp add: eq)
        have pop: "death_queue_population ?t' \<le> thread_max_fd l"
          using room by (simp add: eq)
        have b: "\<forall>j \<in> set (queue_entries l ?t').
                  unat (time_to_die (requests ?t' j)) \<le>
                  unat (death_time ?t') + unat (keep_alive_timeout l)"
          unfolding q dt using inv old new ud by (auto simp: deadlines_ordered_def)
        show ?thesis
          using c' pop s b dt by (simp add: deadlines_ordered_def)
      qed
    qed
  qed
qed


lemma deadlines_ordered_handle_events:
  assumes "0 < thread_max_fd l"
  shows "deadlines_ordered l t \<Longrightarrow>
         unat (death_time t) + unat (keep_alive_timeout l) < 2 ^ 32 \<Longrightarrow>
         fresh_entries l t rs \<Longrightarrow>
         deadlines_ordered l (foldl (handle_event l) t rs) \<and>
         death_time (foldl (handle_event l) t rs) = death_time t"
proof (induction rs arbitrary: t)
  case Nil
  then show ?case by simp
next
  case (Cons r rs)
  have step: "deadlines_ordered l (handle_event l t r) \<and>
              death_time (handle_event l t r) = death_time t"
    using deadlines_ordered_handle_event [OF assms Cons.prems(1,2)] Cons.prems(3) by simp
  then show ?case
    using Cons.IH [of "handle_event l t r"] Cons.prems(2,3) by simp
qed

lemma deadlines_ordered_reap:
  assumes "0 < thread_max_fd l" and inv: "deadlines_ordered l t"
  shows "deadlines_ordered l (reap l t) \<and> death_time (reap l t) = death_time t"
proof -
  have c: "queue_consistent l t"
    using inv by (simp add: deadlines_ordered_def)
  then have f: "death_queue_first t < thread_max_fd l"
    by (simp add: queue_consistent_def)
  let ?n = "length (reaped l t)"
  have q: "queue_entries l (reap l t) = drop ?n (queue_entries l t)"
    using queue_entries_reap [OF f] .
  have ttd: "time_to_die (requests (reap l t) j) = time_to_die (requests t j)" for j
    by (subst reap_eq [OF f]) simp
  have dt: "death_time (reap l t) = death_time t"
    by (subst reap_eq [OF f]) simp
  have d: "queue_deadlines l (reap l t) = drop ?n (queue_deadlines l t)"
    by (simp add: queue_deadlines_def q ttd drop_map)
  have s: "sorted (queue_deadlines l (reap l t))"
    using inv by (simp add: d deadlines_ordered_def sorted_wrt_drop)
  have pop: "death_queue_population (reap l t) \<le> thread_max_fd l"
    using inv unfolding reap_population [OF f] deadlines_ordered_def by arith
  have b: "\<forall>j \<in> set (queue_entries l (reap l t)).
             unat (time_to_die (requests (reap l t) j)) \<le>
             unat (death_time (reap l t)) + unat (keep_alive_timeout l)"
    unfolding q ttd dt using inv by (auto simp: deadlines_ordered_def dest: in_set_dropD)
  show ?thesis
    using queue_consistent_reap [OF assms(1) c] s pop b dt by (simp add: deadlines_ordered_def)
qed

lemma deadlines_ordered_tick:
  assumes inv: "deadlines_ordered l t" and no: "unat (death_time t) + 1 < 2 ^ 32"
  shows "deadlines_ordered l (t\<lparr>trace := tr, death_time := death_time t + 1\<rparr>) \<and>
         unat (death_time t + 1) = unat (death_time t) + 1"
proof -
  have u: "unat (death_time t + 1) = unat (death_time t) + 1"
    using no unat_add_lem [of "death_time t" 1] by simp
  have "deadlines_ordered l (t\<lparr>trace := tr, death_time := death_time t + 1\<rparr>)"
    using inv unfolding deadlines_ordered_def queue_consistent_def queue_deadlines_def
      queue_entries_def by (auto simp: u)
  with u show ?thesis by simp
qed

lemma deadlines_ordered_run:
  assumes m: "0 < thread_max_fd l"
  shows "deadlines_ordered l t \<Longrightarrow>
         unat (death_time t) + length (filter is_timeout ws) + unat (keep_alive_timeout l) < 2 ^ 32 \<Longrightarrow>
         appends_only l t ws \<Longrightarrow> thread_run l t ws = Inr t' \<Longrightarrow>
         deadlines_ordered l t'"
proof (induction ws arbitrary: t)
  case Nil
  then show ?case by simp
next
  case (Cons w ws)
  let ?t0 = "t\<lparr>trace := trace t @ [Epoll_wait (wait_timeout t)]\<rparr>"
  have no: "unat (death_time t) + unat (keep_alive_timeout l) < 2 ^ 32"
    using Cons.prems(2) by simp
  obtain t1 where it: "thread_iteration l t w = Inr t1" and run: "thread_run l t1 ws = Inr t'"
    using Cons.prems(4) by (auto split: sum.splits)
  have ao: "appends_only l t1 ws"
    using Cons.prems(3) it by simp
  have "deadlines_ordered l t1 \<and>
        unat (death_time t1) + length (filter is_timeout ws) + unat (keep_alive_timeout l) < 2 ^ 32"
  proof (cases w)
    case (Failed errno)
    then have "t1 = ?t0 \<or> t1 = ?t0\<lparr>trace := trace ?t0 @ [Perror ''epoll_wait'']\<rparr>"
      using it by (auto simp: thread_iteration_def Let_def split: if_splits)
    then show ?thesis
      using Cons.prems(1,2) Failed by auto
  next
    case (Returned rs)
    show ?thesis
    proof (cases rs)
      case Nil
      let ?t2 = "t\<lparr>trace := trace t @ [Epoll_wait (wait_timeout t)],
                   death_time := death_time t + 1\<rparr>"
      have t1: "t1 = reap l ?t2"
        using it by (simp add: Returned Nil thread_iteration_timeout)
      have "unat (death_time t) + 1 < 2 ^ 32"
        using Cons.prems(2) by (simp add: Returned Nil)
      from deadlines_ordered_tick [OF Cons.prems(1) this]
      have inv2: "deadlines_ordered l ?t2"
        and u: "unat (death_time t + 1) = unat (death_time t) + 1" by simp_all
      from deadlines_ordered_reap [OF m inv2]
      show ?thesis
        using Cons.prems(2) u by (simp add: t1 Returned Nil)
    next
      case (Cons r rs')
      have t1: "t1 = foldl (handle_event l) ?t0 rs"
        using it by (simp add: Returned Cons thread_iteration_ready)
      have fr: "fresh_entries l ?t0 rs"
        using Cons.prems(3) by (simp add: Returned)
      have inv0: "deadlines_ordered l ?t0"
        using Cons.prems(1) by simp
      have no0: "unat (death_time ?t0) + unat (keep_alive_timeout l) < 2 ^ 32"
        using no by simp
      from deadlines_ordered_handle_events [OF m inv0 no0 fr]
      show ?thesis
        using Cons.prems(2) by (simp add: t1 Returned Cons)
    qed
  qed
  then show ?case
    using Cons.IH [OF _ _ ao run] by simp
qed

subsection \<open>The dispatcher's counter\<close>

lemma smod_nonneg:
  fixes a b :: int
  assumes "0 \<le> a" "0 < b"
  shows "a smod b = a mod b"
  using assms by (cases "a = 0") (simp_all add: signed_modulo_int_def)

lemma sint_counter:
  assumes "c < 2 ^ 31"
  shows "sint (of_nat c :: 32 word) = int c"
proof -
  have "signed_take_bit 31 (int c) = int c"
    using assms by (intro signed_take_bit_int_eq_self) simp_all
  then show ?thesis by (simp add: signed_of_nat)
qed

lemma schedule_request_fst:
  assumes "0 < thread_count l" "c < 2 ^ 31"
  shows "fst (schedule_request l (of_nat c)) = int (c mod thread_count l)"
  using assms by (simp add: schedule_request_def sint_counter smod_nonneg zmod_int)

lemma schedule_requests_eq:
  assumes "0 < thread_count l"
  shows "c + k \<le> 2 ^ 31 \<Longrightarrow>
         schedule_requests l k (of_nat c) = map (\<lambda>j. int ((c + j) mod thread_count l)) [0..<k]"
proof (induction k arbitrary: c)
  case 0
  show ?case by simp
next
  case (Suc k)
  have c: "c < 2 ^ 31" using Suc.prems by simp
  have nxt: "snd (schedule_request l (of_nat c)) = of_nat (Suc c)"
    by (simp add: schedule_request_def)
  have "schedule_requests l k (of_nat (Suc c)) =
          map (\<lambda>j. int ((Suc c + j) mod thread_count l)) [0..<k]"
    using Suc.IH [of "Suc c"] Suc.prems by simp
  moreover have "[0..<Suc k] = 0 # map Suc [0..<k]"
    by (simp add: upt_conv_Cons map_Suc_upt del: upt_Suc)
  ultimately show ?case
    using schedule_request_fst [OF assms c] by (simp add: nxt o_def del: upt_Suc)
qed

lemma count_round_robin:
  assumes "i < n"
  shows "count_list (map (\<lambda>j. int (j mod n)) [0..<k]) (int i) =
           k div n + (if i < k mod n then 1 else 0)"
proof (induction k)
  case 0
  show ?case by simp
next
  case (Suc k)
  show ?case
  proof (cases "Suc (k mod n) = n")
    case True
    then have "Suc k mod n = 0" "Suc k div n = Suc (k div n)"
      by (simp_all add: mod_Suc div_Suc)
    then show ?thesis
      using Suc True assms by auto
  next
    case False
    then have "Suc k mod n = Suc (k mod n)" "Suc k div n = k div n"
      by (simp_all add: mod_Suc div_Suc)
    then show ?thesis
      using Suc assms by auto
  qed
qed

lemma ceiling_div:
  fixes k n :: nat
  assumes "0 < n"
  shows "(k + n - 1) div n = k div n + (if k mod n = 0 then 0 else 1)"
proof -
  obtain q r where k: "k = q * n + r" and r: "r < n" and q: "q = k div n" "r = k mod n"
    using assms by (metis div_mult_mod_eq mod_less_divisor)
  show ?thesis
  proof (cases "r = 0")
    case True
    then have "(k + n - 1) = (n - 1) + q * n" using k assms by simp
    moreover have "((n - 1) + q * n) div n = q + (n - 1) div n"
      using assms by (intro div_mult_self1) simp
    ultimately have "(k + n - 1) div n = q"
      using assms by simp
    then show ?thesis using True q by simp
  next
    case False
    then have "(k + n - 1) = (r - 1) + (q + 1) * n" using k by simp
    moreover have "((r - 1) + (q + 1) * n) div n = (q + 1) + (r - 1) div n"
      using assms by (intro div_mult_self1) simp
    ultimately have "(k + n - 1) div n = q + 1"
      using r by simp
    then show ?thesis using False q by simp
  qed
qed

lemma schedule_requests_nth:
  "schedule_requests l (Suc k) c ! k = fst (schedule_request l (c + of_nat k))"
proof (induction k arbitrary: c)
  case 0
  show ?case by simp
next
  case (Suc k)
  have "schedule_requests l (Suc (Suc k)) c ! Suc k =
        schedule_requests l (Suc k) (snd (schedule_request l c)) ! k"
    by simp
  also have "\<dots> = fst (schedule_request l (snd (schedule_request l c) + of_nat k))"
    by (rule Suc.IH)
  finally show ?case
    by (simp add: schedule_request_def ac_simps)
qed

lemma round_robin_before_overflow:
  assumes "0 < thread_count l" and "k \<le> 2 ^ 31"
  shows "(\<forall>w \<in> set (schedule_requests l k 0). 0 \<le> w \<and> w < int (thread_count l)) \<and>
         (\<forall>i < thread_count l.
            count_list (schedule_requests l k 0) (int i) = k div thread_count l \<or>
            count_list (schedule_requests l k 0) (int i) = (k + thread_count l - 1) div thread_count l)"
proof -
  have eq: "schedule_requests l k 0 = map (\<lambda>j. int (j mod thread_count l)) [0..<k]"
    using schedule_requests_eq [OF assms(1), of 0 k] assms(2) by simp
  have range: "\<forall>w \<in> set (schedule_requests l k 0). 0 \<le> w \<and> w < int (thread_count l)"
    using assms(1) by (auto simp: eq)
  have "count_list (schedule_requests l k 0) (int i) = k div thread_count l \<or>
        count_list (schedule_requests l k 0) (int i) = (k + thread_count l - 1) div thread_count l"
    if "i < thread_count l" for i
    unfolding eq count_round_robin [OF that] ceiling_div [OF assms(1)] by auto
  with range show ?thesis by blast
qed

subsection \<open>The accept loop\<close>








lemma accept_calls_logged [simp]:
  "accept_calls l env (a\<lparr>calls := cs\<rparr>) = accept_calls l env a"
  by (rule ext) (simp add: accept_calls_def)





subsection \<open>The loops over the slot table\<close>

lemma alloc_buffers_done: "alloc_buffers new 0 p = p"
  by (cases p) (simp add: alloc_buffers.simps)

lemma alloc_buffers_step:
  "c \<noteq> 0 \<Longrightarrow>
   alloc_buffers new c (rs, cs) =
     alloc_buffers new (c - 1)
       (rs(uint c := (rs (uint c))\<lparr>response_buffer := new (unat c)\<rparr>), cs @ [Strbuf_new])"
  by (subst alloc_buffers.simps) simp

lemma alloc_buffers_slot_zero:
  "fst (alloc_buffers new c (rs, cs)) 0 = rs 0"
proof (induction new c "(rs, cs)" arbitrary: rs cs rule: alloc_buffers.induct)
  case (1 new c rs cs)
  show ?case
  proof (cases "c = 0")
    case True
    then show ?thesis by (simp add: alloc_buffers_done)
  next
    case False
    then have "uint c \<noteq> 0" by (simp add: uint_0_iff)
    with False "1.hyps" [OF False] show ?thesis
      by (simp add: alloc_buffers_step)
  qed
qed

lemma free_buffers_eq:
  "- 1 \<le> i \<Longrightarrow>
   free_buffers rs i cs = cs @ map (\<lambda>j. Strbuf_free (response_buffer (rs j))) (rev [0..i])"
proof (induction rs i cs rule: free_buffers.induct)
  case (1 rs i cs)
  show ?case
  proof (cases "0 \<le> i")
    case True
    have "[0..i] = [0..i - 1] @ [i]"
      using True by (simp add: upto_rec2)
    with "1.IH" [OF True] True show ?thesis
      by (subst free_buffers.simps) simp
  next
    case False
    then show ?thesis
      by (subst free_buffers.simps) simp
  qed
qed

section \<open>The worker's reaction to a failing \<^verbatim>\<open>epoll_wait\<close>\<close>

text \<open>
  C9. When \<^verbatim>\<open>epoll_wait\<close> fails in the worker loop: if errno is EBADF or EINVAL the worker
  leaves its loop and returns (after releasing the death queue), whatever results
  would have followed; if errno is EINTR it logs with perror and continues the loop with
  the next result; on any other errno it continues the loop without logging. Slots,
  queue and tick are untouched in all three cases. The first equation is the single
  pass through the loop body, the second the loop \<open>thread_run\<close> on any sequence of
  results that starts with the failure.
\<close>

theorem epoll_wait_failure:
  "thread_iteration l t (Failed errno) =
     (if errno = EBADF \<or> errno = EINVAL
      then Inl (t\<lparr>trace := trace t @ [Epoll_wait (wait_timeout t), Free_death_queue]\<rparr>)
      else if errno = EINTR
      then Inr (t\<lparr>trace := trace t @ [Epoll_wait (wait_timeout t), Perror ''epoll_wait'']\<rparr>)
      else Inr (t\<lparr>trace := trace t @ [Epoll_wait (wait_timeout t)]\<rparr>)) \<and>
   thread_run l t (Failed errno # ws) =
     (if errno = EBADF \<or> errno = EINVAL
      then Inl (t\<lparr>trace := trace t @ [Epoll_wait (wait_timeout t), Free_death_queue]\<rparr>)
      else if errno = EINTR
      then thread_run l
             (t\<lparr>trace := trace t @ [Epoll_wait (wait_timeout t), Perror ''epoll_wait'']\<rparr>) ws
      else thread_run l (t\<lparr>trace := trace t @ [Epoll_wait (wait_timeout t)]\<rparr>) ws)"
  by (simp add: thread_iteration_def Let_def)

section \<open>Hang-up events\<close>

text \<open>
  C1 (the code departs from the claim). On a ready entry whose mask has EPOLLRDHUP or
  EPOLLHUP the worker calls \<^verbatim>\<open>epoll_ctl\<close> with \<^verbatim>\<open>EPOLL_CTL_DEL\<close> (logging with perror when
  that fails) and marks the slot not alive, and nothing else: the \<^verbatim>\<open>goto\<close> of line 198
  lands behind the \<^verbatim>\<open>close\<close> of line 233, so the fd is never closed on this path.
\<close>

theorem hangup_not_closed:
  assumes "is_hangup r"
  shows "handle_event l t r =
           t\<lparr>requests := (requests t)(data_fd (event r) :=
                          (requests t (data_fd (event r)))\<lparr>flags_alive := False\<rparr>),
             trace := trace t @ Epoll_ctl_del (data_fd (event r)) #
                        (if epoll_ctl_ret r < 0 then [Perror ''epoll_ctl''] else [])\<rparr>"
  using assms by (simp add: handle_event_def Let_def)

theorem hangup_not_closed_witness:
  "is_hangup (hangup 5) \<and>
   trace (handle_event sample_lwan (thread_start sample_lwan sample_requests) (hangup 5)) =
     [Epoll_ctl_del 5]"
  using hangup_not_closed [OF hangup_is_hangup, of sample_lwan "thread_start sample_lwan sample_requests" 5]
  by (simp add: hangup_is_hangup) (simp add: hangup_def thread_start_def)

section \<open>What the request processor is handed\<close>

text \<open>
  C3 (amended). For a ready entry without hang-up bits on fd \<open>i\<close>: when the slot is
  not marked alive, \<^verbatim>\<open>lwan_process_request\<close> is handed a slot whose fields are all zero
  except \<^verbatim>\<open>fd\<close>, which is \<open>i\<close>, and the \<^verbatim>\<open>response.buffer\<close> pointer, which is kept (the
  buffer is emptied by \<^verbatim>\<open>strbuf_reset\<close>); when the slot is marked alive (a keep-alive
  connection), it is handed the slot unchanged, as the previous request left it.
\<close>

theorem process_request_argument:
  assumes "\<not> is_hangup r"
  shows "let i = data_fd (event r);
             request = requests t i;
             handed = (if flags_alive request then request
                       else \<lparr>request_fd = i, flags_alive = False, flags_is_keep_alive = False,
                             time_to_die = 0, response_buffer = response_buffer request,
                             opaque_state = 0\<rparr>)
         in trace (handle_event l t r) =
              trace t @
              (if flags_alive request then [] else [Strbuf_reset (response_buffer request)]) @
              [Lwan_process_request handed] @
              (if flags_is_keep_alive (process_request r handed) then [] else [Close i])"
  using assms
  by (simp add: handle_event_def keep_alive_branch_def reset_request_def zeroed_request_def Let_def)

theorem process_request_argument_witness:
  "\<not> is_hangup (keep_alive_request 5) \<and>
   trace (handle_event sample_lwan (thread_start sample_lwan sample_requests) (keep_alive_request 5)) =
     [Strbuf_reset 105,
      Lwan_process_request
        \<lparr>request_fd = 5, flags_alive = False, flags_is_keep_alive = False,
         time_to_die = 0, response_buffer = 105, opaque_state = 0\<rparr>]"
  using process_request_argument [where t = "thread_start sample_lwan sample_requests" and l = sample_lwan, OF keep_alive_request_no_hangup]
  by (simp add: keep_alive_request_no_hangup Let_def)
    (simp add: keep_alive_request_def thread_start_def sample_requests_def zeroed_request_def)

text \<open>
  C3 as stated fails: the second request of a keep-alive connection finds \<^verbatim>\<open>flags.alive\<close>,
  \<^verbatim>\<open>flags.is_keep_alive\<close> and \<^verbatim>\<open>time_to_die\<close> as the first request left them.
\<close>

theorem second_request_not_reset:
  "thread_run sample_lwan (thread_start sample_lwan sample_requests)
     [Returned [keep_alive_request 5], Returned [keep_alive_request 5]] =
   Inr (one_queued\<lparr>trace :=
     [Epoll_wait (- 1), Strbuf_reset 105,
      Lwan_process_request
        \<lparr>request_fd = 5, flags_alive = False, flags_is_keep_alive = False,
         time_to_die = 0, response_buffer = 105, opaque_state = 0\<rparr>,
      Epoll_wait 1000,
      Lwan_process_request
        \<lparr>request_fd = 5, flags_alive = True, flags_is_keep_alive = True,
         time_to_die = 2, response_buffer = 105, opaque_state = 0\<rparr>]\<rparr>)"
proof -
  have "thread_iteration sample_lwan one_queued (Returned [keep_alive_request 5]) =
    Inr (one_queued\<lparr>trace :=
     [Epoll_wait (- 1), Strbuf_reset 105,
      Lwan_process_request
        \<lparr>request_fd = 5, flags_alive = False, flags_is_keep_alive = False,
         time_to_die = 0, response_buffer = 105, opaque_state = 0\<rparr>,
      Epoll_wait 1000,
      Lwan_process_request
        \<lparr>request_fd = 5, flags_alive = True, flags_is_keep_alive = True,
         time_to_die = 2, response_buffer = 105, opaque_state = 0\<rparr>]\<rparr>)"
    by (simp add: iteration_simps sample_simps)
  then show ?thesis
    by (simp only: thread_run.simps first_request sum.case)
qed

section \<open>The timeout case\<close>

text \<open>
  C5. On a timeout (\<^verbatim>\<open>epoll_wait\<close> returns 0) the worker has called \<^verbatim>\<open>epoll_wait\<close> with
  timeout 1000 if the death queue was populated and \<open>-1\<close> otherwise, increments its tick,
  and reaps exactly the longest run of entries at the head of the queue whose slot's
  \<^verbatim>\<open>time_to_die\<close> is at most the new tick: each of those slots is marked not alive and
  its \<^verbatim>\<open>fd\<close> closed, in queue order, the head advances past them (modulo \<^verbatim>\<open>max_fd\<close>) and
  the population drops by their number. What remains is the rest of the queue, and its
  first entry, if any, has a deadline beyond the tick.
\<close>

theorem timeout_iteration:
  assumes "death_queue_first t < thread_max_fd l"
  shows "\<exists>t'. thread_iteration l t (Returned []) = Inr t' \<and>
           death_time t' = death_time t + 1 \<and>
           trace t' = trace t @
             Epoll_wait (if death_queue_population t \<noteq> 0 then 1000 else - 1) #
             map (\<lambda>i. Close (request_fd (requests t i)))
               (takeWhile (\<lambda>i. time_to_die (requests t i) \<le> death_time t + 1) (queue_entries l t)) \<and>
           requests t' =
             (\<lambda>i. if i \<in> set (takeWhile (\<lambda>i. time_to_die (requests t i) \<le> death_time t + 1)
                                 (queue_entries l t))
                  then (requests t i)\<lparr>flags_alive := False\<rparr> else requests t i) \<and>
           death_queue_first t' =
             (death_queue_first t +
              length (takeWhile (\<lambda>i. time_to_die (requests t i) \<le> death_time t + 1)
                        (queue_entries l t))) mod thread_max_fd l \<and>
           death_queue_population t' =
             death_queue_population t -
             length (takeWhile (\<lambda>i. time_to_die (requests t i) \<le> death_time t + 1)
                       (queue_entries l t)) \<and>
           death_queue t' = death_queue t \<and>
           death_queue_last t' = death_queue_last t \<and>
           queue_entries l t' =
             dropWhile (\<lambda>i. time_to_die (requests t i) \<le> death_time t + 1) (queue_entries l t) \<and>
           (case queue_entries l t' of [] \<Rightarrow> True
            | i # rest \<Rightarrow> death_time t' < time_to_die (requests t' i)) \<and>
           (\<forall>w. \<exists>t'' cs. (thread_iteration l t w = Inl t'' \<or> thread_iteration l t w = Inr t'') \<and>
              trace t'' = trace t @
                Epoll_wait (if death_queue_population t \<noteq> 0 then 1000 else - 1) # cs)"
proof -
  let ?t0 = "t\<lparr>trace := trace t @ [Epoll_wait (wait_timeout t)],
               death_time := death_time t + 1\<rparr>"
  let ?P = "\<lambda>i. time_to_die (requests t i) \<le> death_time t + 1"
  have it: "thread_iteration l t (Returned []) = Inr (reap l ?t0)"
    by (simp add: thread_iteration_def)
  have f: "death_queue_first ?t0 < thread_max_fd l"
    using assms by simp
  have q0: "queue_entries l ?t0 = queue_entries l t"
    by (simp add: queue_entries_def)
  have ex: "expired ?t0 = ?P"
    by (rule ext) (simp add: expired_def)
  have r: "reaped l ?t0 = takeWhile ?P (queue_entries l t)"
    by (simp add: reaped_def q0 ex)
  have q: "queue_entries l (reap l ?t0) = dropWhile ?P (queue_entries l t)"
    using queue_entries_reap [OF f] by (simp add: r q0 dropWhile_eq_drop)
  have ttd: "time_to_die (requests (reap l ?t0) i) = time_to_die (requests t i)" for i
    by (subst reap_eq [OF f]) simp
  have dt: "death_time (reap l ?t0) = death_time t + 1"
    by (subst reap_eq [OF f]) simp
  have stop: "(case queue_entries l (reap l ?t0) of [] \<Rightarrow> True
            | i # rest \<Rightarrow> death_time (reap l ?t0) < time_to_die (requests (reap l ?t0) i))"
  proof (cases "dropWhile ?P (queue_entries l t)")
    case Nil
    show ?thesis unfolding q Nil by simp
  next
    case (Cons i rest)
    then have "\<not> ?P i"
      using hd_dropWhile [of ?P "queue_entries l t"] by simp
    then show ?thesis
      unfolding q Cons by (simp add: ttd dt not_le)
  qed
  have tr: "trace (reap l ?t0) = trace t @ Epoll_wait (wait_timeout t) #
              map (\<lambda>i. Close (request_fd (requests t i))) (takeWhile ?P (queue_entries l t))"
    by (subst reap_eq [OF f]) (simp add: r)
  have rq: "requests (reap l ?t0) =
              (\<lambda>i. if i \<in> set (takeWhile ?P (queue_entries l t))
                   then (requests t i)\<lparr>flags_alive := False\<rparr> else requests t i)"
    by (subst reap_eq [OF f]) (simp add: r cong: if_cong)
  have fi: "death_queue_first (reap l ?t0) =
              (death_queue_first t + length (takeWhile ?P (queue_entries l t))) mod thread_max_fd l"
    by (subst reap_eq [OF f]) (simp add: r)
  have po: "death_queue_population (reap l ?t0) =
              death_queue_population t - length (takeWhile ?P (queue_entries l t))"
    by (subst reap_eq [OF f]) (simp add: r)
  have dq: "death_queue (reap l ?t0) = death_queue t"
    by (subst reap_eq [OF f]) simp
  have la: "death_queue_last (reap l ?t0) = death_queue_last t"
    by (subst reap_eq [OF f]) simp
  have every: "\<forall>w. \<exists>t'' cs. (thread_iteration l t w = Inl t'' \<or> thread_iteration l t w = Inr t'') \<and>
              trace t'' = trace t @ Epoll_wait (wait_timeout t) # cs"
    using iteration_waits [OF assms] by blast
  from it dt tr rq fi po dq la q stop every show ?thesis
    unfolding wait_timeout_def by blast
qed



theorem timeout_iteration_witness:
  "death_queue_first queued_state < thread_max_fd sample_lwan \<and>
   (\<exists>t'. thread_iteration sample_lwan queued_state (Returned []) = Inr t' \<and>
      death_time t' = 2 \<and>
      trace t' = trace queued_state @ [Epoll_wait 1000, Close 5] \<and>
      \<not> flags_alive (requests t' 5) \<and> flags_alive (requests t' 6) \<and>
      death_queue_first t' = 1 \<and> death_queue_population t' = 1 \<and>
      queue_entries sample_lwan t' = [6])"
proof -
  have f: "death_queue_first queued_state < thread_max_fd sample_lwan"
    by (simp add: queued_state_def sample_lwan_def)
  have dead: "takeWhile (\<lambda>i. time_to_die (requests queued_state i) \<le> death_time queued_state + 1)
                [5, 6] = [5]"
    by (simp add: queued_state_def)
  have rest: "dropWhile (\<lambda>i. time_to_die (requests queued_state i) \<le> death_time queued_state + 1)
                [5, 6] = [6]"
    by (simp add: queued_state_def)
  obtain t' where "thread_iteration sample_lwan queued_state (Returned []) = Inr t'"
    and "death_time t' = death_time queued_state + 1"
    and "trace t' = trace queued_state @
           Epoll_wait (if death_queue_population queued_state \<noteq> 0 then 1000 else - 1) #
           map (\<lambda>i. Close (request_fd (requests queued_state i))) [5]"
    and "requests t' = (\<lambda>i. if i \<in> set [5] then (requests queued_state i)\<lparr>flags_alive := False\<rparr>
                             else requests queued_state i)"
    and "death_queue_first t' = (death_queue_first queued_state + length [5::int]) mod thread_max_fd sample_lwan"
    and "death_queue_population t' = death_queue_population queued_state - length [5::int]"
    and "queue_entries sample_lwan t' = [6]"
    using timeout_iteration [OF f] unfolding queue_entries_queued_state dead rest by blast
  then show ?thesis
    using f by (intro conjI exI [of _ t']) (simp_all add: queued_state_def sample_lwan_def)
qed

section \<open>Stale queue entries\<close>

text \<open>
  C4 (amended). A hang-up on a queued fd leaves its queue entry and its deadline in
  place and only marks the slot not alive. When the reaper reaches such a stale entry
  at a timeout, that is, the entries ahead of it in the queue and the entry itself
  (entry number \<open>k\<close> from the head, counted from 0) have their deadlines reached, it does
  not skip it: it handles it like any other entry, removing it from the queue, marking
  the slot not alive and calling \<^verbatim>\<open>close\<close> on the slot's \<^verbatim>\<open>fd\<close>; the timeout closes the
  expired entries in queue order, so this \<^verbatim>\<open>close\<close> is number \<open>k\<close> among them. When no
  other queue entry carries the same fd value, that \<^verbatim>\<open>close\<close> is the only one of the fd
  value in the timeout, and no number of timeouts that follow closes the fd value
  again. The reaper never reads \<^verbatim>\<open>flags.alive\<close>.
\<close>

theorem stale_entry_reaped:
  assumes "death_queue_first t < thread_max_fd l"
    and "k < length (queue_entries l t)"
    and "\<forall>m \<le> k. time_to_die (requests t (queue_entries l t ! m)) \<le> death_time t + 1"
    and "queue_entries l t ! k = i"
    and "\<not> flags_alive (requests t i)"
  shows "(\<exists>t'. thread_iteration l t (Returned []) = Inr t' \<and>
           trace t' = trace t @ Epoll_wait 1000 #
             map (\<lambda>j. Close (request_fd (requests t j)))
               (takeWhile (\<lambda>j. time_to_die (requests t j) \<le> death_time t + 1)
                  (queue_entries l t)) \<and>
           k < length (takeWhile (\<lambda>j. time_to_die (requests t j) \<le> death_time t + 1)
                  (queue_entries l t)) \<and>
           takeWhile (\<lambda>j. time_to_die (requests t j) \<le> death_time t + 1)
                  (queue_entries l t) ! k = i \<and>
           queue_entries l t' =
             dropWhile (\<lambda>j. time_to_die (requests t j) \<le> death_time t + 1)
               (queue_entries l t) \<and>
           length (queue_entries l t') + k < length (queue_entries l t) \<and>
           \<not> flags_alive (requests t' i) \<and>
           ((\<forall>m < length (queue_entries l t). m \<noteq> k \<longrightarrow>
               request_fd (requests t (queue_entries l t ! m)) \<noteq> request_fd (requests t i)) \<longrightarrow>
            count_list
              (map (\<lambda>j. Close (request_fd (requests t j)))
                 (takeWhile (\<lambda>j. time_to_die (requests t j) \<le> death_time t + 1)
                    (queue_entries l t)))
              (Close (request_fd (requests t i))) = 1 \<and>
            (\<forall>n. \<exists>t'' cs. thread_run l t' (replicate n (Returned [])) = Inr t'' \<and>
                   trace t'' = trace t' @ cs \<and>
                   Close (request_fd (requests t i)) \<notin> set cs))) \<and>
         (\<forall>s r. is_hangup r \<longrightarrow>
           queue_entries l (handle_event l s r) = queue_entries l s \<and>
           death_time (handle_event l s r) = death_time s \<and>
           \<not> flags_alive (requests (handle_event l s r) (data_fd (event r))) \<and>
           time_to_die (requests (handle_event l s r) (data_fd (event r))) =
             time_to_die (requests s (data_fd (event r))))"
proof -
  let ?P = "\<lambda>j. time_to_die (requests t j) \<le> death_time t + 1"
  let ?q = "queue_entries l t"
  let ?f = "\<lambda>j. Close (request_fd (requests t j))"
  have pop: "death_queue_population t \<noteq> 0"
    using assms(2) by (auto simp: queue_entries_def)
  have w: "wait_timeout t = 1000"
    using pop by (simp add: wait_timeout_def)
  have "Suc k \<le> length (takeWhile ?P ?q)"
    using assms(2,3) by (intro length_takeWhile_less_P_nth) simp_all
  then have kt: "k < length (takeWhile ?P ?q)" by simp
  have nth: "takeWhile ?P ?q ! k = i"
    using takeWhile_nth [OF kt] assms(4) by simp
  have mem: "i \<in> set (takeWhile ?P ?q)"
    using kt nth nth_mem by blast
  have len: "length ?q = length (takeWhile ?P ?q) + length (dropWhile ?P ?q)"
    by (subst takeWhile_dropWhile_id [of ?P ?q, symmetric], subst length_append) simp
  obtain t' where it: "thread_iteration l t (Returned []) = Inr t'"
    and tr: "trace t' = trace t @ Epoll_wait (wait_timeout t) # map ?f (takeWhile ?P ?q)"
    and qe: "queue_entries l t' = dropWhile ?P ?q"
    and rq: "requests t' =
             (\<lambda>j. if j \<in> set (takeWhile ?P ?q)
                  then (requests t j)\<lparr>flags_alive := False\<rparr> else requests t j)"
    and fi: "death_queue_first t' < thread_max_fd l"
    using timeout_step [OF assms(1)] by blast
  have 1: "trace t' = trace t @ Epoll_wait 1000 # map ?f (takeWhile ?P ?q)"
    unfolding tr w ..
  have 3: "length (queue_entries l t') + k < length ?q"
    unfolding qe using len kt by simp
  have 4: "\<not> flags_alive (requests t' i)"
    unfolding rq using mem by simp
  have fd: "request_fd (requests t' j) = request_fd (requests t j)" for j
    by (simp add: rq)
  have 5: "count_list (map ?f (takeWhile ?P ?q)) (?f i) = 1 \<and>
           (\<forall>n. \<exists>t'' cs. thread_run l t' (replicate n (Returned [])) = Inr t'' \<and>
                   trace t'' = trace t' @ cs \<and> ?f i \<notin> set cs)"
    if other: "\<forall>m < length ?q. m \<noteq> k \<longrightarrow>
               request_fd (requests t (?q ! m)) \<noteq> request_fd (requests t i)"
  proof
    show "count_list (map ?f (takeWhile ?P ?q)) (?f i) = 1"
    proof (rule count_list_once [where k = k])
      show "k < length (map ?f (takeWhile ?P ?q))" using kt by simp
      show "map ?f (takeWhile ?P ?q) ! k = ?f i" using kt nth by simp
    next
      fix m
      assume m: "m < length (map ?f (takeWhile ?P ?q))" "m \<noteq> k"
      then have mt: "m < length (takeWhile ?P ?q)" by simp
      then have "m < length ?q" using len by simp
      with other m(2) have "request_fd (requests t (?q ! m)) \<noteq> request_fd (requests t i)"
        by blast
      then show "map ?f (takeWhile ?P ?q) ! m \<noteq> ?f i"
        using mt takeWhile_nth [OF mt] by simp
    qed
  next
    show "\<forall>n. \<exists>t'' cs. thread_run l t' (replicate n (Returned [])) = Inr t'' \<and>
                   trace t'' = trace t' @ cs \<and> ?f i \<notin> set cs"
    proof
      fix n
      obtain t'' cs where run: "thread_run l t' (replicate n (Returned [])) = Inr t''"
        and tr'': "trace t'' = trace t' @ cs"
        and cl: "\<forall>c \<in> set cs. (\<exists>x. c = Epoll_wait x) \<or>
              (\<exists>j \<in> set (queue_entries l t'). c = Close (request_fd (requests t' j)))"
        using timeouts_close_queued [OF fi, of n] by blast
      have "?f i \<notin> set cs"
      proof
        assume "?f i \<in> set cs"
        with cl obtain j where j: "j \<in> set (dropWhile ?P ?q)"
          and eq: "request_fd (requests t j) = request_fd (requests t i)"
          by (auto simp: qe fd)
        from j obtain m where m: "m < length (dropWhile ?P ?q)" "dropWhile ?P ?q ! m = j"
          by (auto simp: in_set_conv_nth)
        have dd: "dropWhile ?P ?q = drop (length (takeWhile ?P ?q)) ?q"
          by (rule dropWhile_eq_drop)
        have lt: "length (takeWhile ?P ?q) + m < length ?q"
          using m(1) len by arith
        have "?q ! (length (takeWhile ?P ?q) + m) = drop (length (takeWhile ?P ?q)) ?q ! m"
          by (rule nth_drop [symmetric]) (use lt in arith)
        also have "\<dots> = j"
          using m(2) unfolding dd .
        finally have at: "?q ! (length (takeWhile ?P ?q) + m) = j" .
        have ne: "length (takeWhile ?P ?q) + m \<noteq> k" using kt by arith
        from other lt ne have
          "request_fd (requests t (?q ! (length (takeWhile ?P ?q) + m))) \<noteq>
           request_fd (requests t i)"
          by blast
        with eq show False unfolding at by simp
      qed
      with run tr'' show "\<exists>t'' cs. thread_run l t' (replicate n (Returned [])) = Inr t'' \<and>
                   trace t'' = trace t' @ cs \<and> ?f i \<notin> set cs"
        by blast
    qed
  qed
  have 6: "queue_entries l (handle_event l s r) = queue_entries l s \<and>
           death_time (handle_event l s r) = death_time s \<and>
           \<not> flags_alive (requests (handle_event l s r) (data_fd (event r))) \<and>
           time_to_die (requests (handle_event l s r) (data_fd (event r))) =
             time_to_die (requests s (data_fd (event r)))" if "is_hangup r" for s r
    using that by (simp add: handle_event_hangup queue_entries_def)
  have imp: "(\<forall>m < length ?q. m \<noteq> k \<longrightarrow>
               request_fd (requests t (?q ! m)) \<noteq> request_fd (requests t i)) \<longrightarrow>
            count_list (map ?f (takeWhile ?P ?q)) (?f i) = 1 \<and>
            (\<forall>n. \<exists>t'' cs. thread_run l t' (replicate n (Returned [])) = Inr t'' \<and>
                   trace t'' = trace t' @ cs \<and> ?f i \<notin> set cs)"
    by (rule impI) (rule 5)
  have hup: "\<forall>s r. is_hangup r \<longrightarrow>
           queue_entries l (handle_event l s r) = queue_entries l s \<and>
           death_time (handle_event l s r) = death_time s \<and>
           \<not> flags_alive (requests (handle_event l s r) (data_fd (event r))) \<and>
           time_to_die (requests (handle_event l s r) (data_fd (event r))) =
             time_to_die (requests s (data_fd (event r)))"
    by (intro allI impI) (rule 6)
  show ?thesis
    apply (rule conjI)
     apply (rule exI [of _ t'])
     apply (rule conjI [OF it conjI [OF 1 conjI [OF kt conjI [OF nth
          conjI [OF qe conjI [OF 3 conjI [OF 4 imp]]]]]]])
    apply (rule hup)
    done
qed

theorem stale_entry_reaped_witness:
  "thread_run sample_lwan (thread_start sample_lwan sample_requests)
     [Returned [keep_alive_request 5], Returned [hangup 5], Returned []] = Inr stale_head \<and>
   death_queue_first stale_head < thread_max_fd sample_lwan \<and>
   queue_entries sample_lwan stale_head = [5] \<and>
   time_to_die (requests stale_head 5) \<le> death_time stale_head + 1 \<and>
   \<not> flags_alive (requests stale_head 5) \<and>
   (\<exists>t'. thread_iteration sample_lwan stale_head (Returned []) = Inr t' \<and>
      trace t' = trace stale_head @ [Epoll_wait 1000, Close 5] \<and>
      queue_entries sample_lwan t' = [] \<and>
      (\<exists>t'' cs. thread_run sample_lwan t' [Returned [], Returned []] = Inr t'' \<and>
         trace t'' = trace t' @ cs \<and> Close 5 \<notin> set cs)) \<and>
   is_hangup (hangup 5) \<and>
   queue_entries sample_lwan (handle_event sample_lwan one_queued (hangup 5)) = [5] \<and>
   \<not> flags_alive (requests (handle_event sample_lwan one_queued (hangup 5)) 5)"
proof -
  let ?P = "\<lambda>j. time_to_die (requests stale_head j) \<le> death_time stale_head + 1"
  have a: "death_queue_first stale_head < thread_max_fd sample_lwan"
    and d: "\<not> flags_alive (requests stale_head 5)"
    and e: "time_to_die (requests stale_head 5) \<le> death_time stale_head + 1"
    by (simp_all add: stale_head_def one_queued_def sample_lwan_fields)
  have q: "queue_entries sample_lwan stale_head = [5]"
    by (simp add: queue_entries_def stale_head_def one_queued_def sample_lwan_fields)
  have q1: "queue_entries sample_lwan one_queued = [5]"
    by (simp add: queue_entries_def one_queued_def sample_lwan_fields)
  have f: "request_fd (requests stale_head 5) = 5"
    by (simp add: stale_head_def)
  have b: "0 < length (queue_entries sample_lwan stale_head)"
    and c: "\<forall>m \<le> 0. time_to_die (requests stale_head (queue_entries sample_lwan stale_head ! m))
              \<le> death_time stale_head + 1"
    and i: "queue_entries sample_lwan stale_head ! 0 = 5"
    using e by (simp_all add: q)
  have tw: "takeWhile ?P [5] = [5]" and dw: "dropWhile ?P [5] = []"
    using e by simp_all
  have two: "replicate 2 (Returned []) = [Returned [], Returned []]"
    by (simp add: numeral_2_eq_2)
  note inst = stale_entry_reaped [OF a b c i d]
  have only: "\<forall>m < length (queue_entries sample_lwan stale_head). m \<noteq> 0 \<longrightarrow>
      request_fd (requests stale_head (queue_entries sample_lwan stale_head ! m)) \<noteq>
      request_fd (requests stale_head 5)"
    by (simp add: q)
  from inst [THEN conjunct1] obtain t' where
    it: "thread_iteration sample_lwan stale_head (Returned []) = Inr t'"
    and tr0: "trace t' = trace stale_head @ Epoll_wait 1000 #
             map (\<lambda>j. Close (request_fd (requests stale_head j)))
               (takeWhile ?P (queue_entries sample_lwan stale_head))"
    and qe0: "queue_entries sample_lwan t' = dropWhile ?P (queue_entries sample_lwan stale_head)"
    and later0: "(\<forall>m < length (queue_entries sample_lwan stale_head). m \<noteq> 0 \<longrightarrow>
               request_fd (requests stale_head (queue_entries sample_lwan stale_head ! m)) \<noteq>
               request_fd (requests stale_head 5)) \<longrightarrow>
            count_list
              (map (\<lambda>j. Close (request_fd (requests stale_head j)))
                 (takeWhile ?P (queue_entries sample_lwan stale_head)))
              (Close (request_fd (requests stale_head 5))) = 1 \<and>
            (\<forall>n. \<exists>t'' cs. thread_run sample_lwan t' (replicate n (Returned [])) = Inr t'' \<and>
                   trace t'' = trace t' @ cs \<and>
                   Close (request_fd (requests stale_head 5)) \<notin> set cs)"
    by blast
  have tr: "trace t' = trace stale_head @ [Epoll_wait 1000, Close 5]"
    unfolding tr0 q tw by (simp add: f)
  have qe: "queue_entries sample_lwan t' = []"
    unfolding qe0 q dw ..
  from later0 only have later: "\<forall>n. \<exists>t'' cs. thread_run sample_lwan t' (replicate n (Returned [])) = Inr t'' \<and>
                   trace t'' = trace t' @ cs \<and> Close 5 \<notin> set cs"
    unfolding f by blast
  from later [THEN spec, of 2] have l2:
    "\<exists>t'' cs. thread_run sample_lwan t' [Returned [], Returned []] = Inr t'' \<and>
         trace t'' = trace t' @ cs \<and> Close 5 \<notin> set cs"
    unfolding two .
  have h: "queue_entries sample_lwan (handle_event sample_lwan one_queued (hangup 5)) = [5] \<and>
           \<not> flags_alive (requests (handle_event sample_lwan one_queued (hangup 5)) 5)"
    using inst [THEN conjunct2, THEN spec, THEN spec, THEN mp, OF hangup_is_hangup,
        of one_queued 5]
    by (simp add: q1 hangup_def)
  from a q e d it tr qe l2 h stale_head_reached hangup_is_hangup show ?thesis by blast
qed

text \<open>
  C4 as stated fails: after a keep-alive request and a hang-up on fd 5, the second
  timeout reaps the entry and closes fd 5.
\<close>

theorem stale_entry_closed_by_reaper:
  "\<exists>t. thread_run sample_lwan (thread_start sample_lwan sample_requests)
          [Returned [keep_alive_request 5], Returned [hangup 5], Returned [], Returned []] = Inr t \<and>
        trace t =
          [Epoll_wait (- 1), Strbuf_reset 105,
           Lwan_process_request
             \<lparr>request_fd = 5, flags_alive = False, flags_is_keep_alive = False,
              time_to_die = 0, response_buffer = 105, opaque_state = 0\<rparr>,
           Epoll_wait 1000, Epoll_ctl_del 5,
           Epoll_wait 1000,
           Epoll_wait 1000, Close 5] \<and>
        death_queue_population t = 0"
proof -
  let ?h1 = "one_queued\<lparr>requests := (requests one_queued)
                 (5 := \<lparr>request_fd = 5, flags_alive = False, flags_is_keep_alive = True,
                        time_to_die = 2, response_buffer = 105, opaque_state = 0\<rparr>),
               trace := trace one_queued @ [Epoll_wait 1000, Epoll_ctl_del 5]\<rparr>"
  let ?h2 = "?h1\<lparr>death_time := 1, trace := trace ?h1 @ [Epoll_wait 1000]\<rparr>"
  let ?h3 = "?h2\<lparr>death_time := 2, death_queue_first := 1, death_queue_population := 0,
               trace := trace ?h2 @ [Epoll_wait 1000, Close 5]\<rparr>"
  have 1: "thread_iteration sample_lwan one_queued (Returned [hangup 5]) = Inr ?h1"
    by (simp add: iteration_simps sample_simps)
  have 2: "thread_iteration sample_lwan ?h1 (Returned []) = Inr ?h2"
    by (simp add: iteration_simps sample_simps)
  have 3: "thread_iteration sample_lwan ?h2 (Returned []) = Inr ?h3"
    by (simp add: iteration_simps sample_simps)
  have "thread_run sample_lwan (thread_start sample_lwan sample_requests)
          [Returned [keep_alive_request 5], Returned [hangup 5], Returned [], Returned []] = Inr ?h3"
    by (simp only: thread_run.simps first_request 1 2 3 sum.case)
  moreover have "trace ?h3 =  [Epoll_wait (- 1), Strbuf_reset 105,
           Lwan_process_request
             \<lparr>request_fd = 5, flags_alive = False, flags_is_keep_alive = False,
              time_to_die = 0, response_buffer = 105, opaque_state = 0\<rparr>,
           Epoll_wait 1000, Epoll_ctl_del 5,
           Epoll_wait 1000,
           Epoll_wait 1000, Close 5]"
    by (simp add: one_queued_def)
  moreover have "death_queue_population ?h3 = 0"
    by simp
  ultimately show ?thesis by blast
qed

section \<open>Appending to a full death queue\<close>

text \<open>
  C10. The append of lines 224-229 checks no capacity. In every state the worker can
  reach in which \<^verbatim>\<open>death_queue_population\<close> equals \<^verbatim>\<open>max_fd\<close>, the tail index equals the
  head index, and handling a ready entry that takes the append branch (no hang-up, the
  processor leaves \<^verbatim>\<open>is_keep_alive\<close> set and \<^verbatim>\<open>alive\<close> clear) stores the fd in the head
  cell, over the oldest entry not yet reaped, leaves the head index where it was and
  raises the population to \<^verbatim>\<open>max_fd + 1\<close>.
\<close>

theorem append_at_capacity:
  assumes "0 < thread_max_fd l"
    and "thread_run l (thread_start l rs) ws = Inr t"
    and "death_queue_population t = thread_max_fd l"
    and "\<not> is_hangup r"
    and "flags_is_keep_alive (processed_request t r)"
    and "\<not> flags_alive (processed_request t r)"
  shows "death_queue_last t = death_queue_first t \<and>
         death_queue (handle_event l t r) =
           (death_queue t)[death_queue_first t := data_fd (event r)] \<and>
         death_queue (handle_event l t r) ! death_queue_first t = data_fd (event r) \<and>
         death_queue_first (handle_event l t r) = death_queue_first t \<and>
         death_queue_population (handle_event l t r) = thread_max_fd l + 1 \<and>
         thread_max_fd l < death_queue_population (handle_event l t r)"
proof -
  have c: "queue_consistent l t"
    using queue_consistent_run [OF assms(1) queue_consistent_start [OF assms(1)] assms(2)] .
  then have last: "death_queue_last t = death_queue_first t"
    using assms(3) by (simp add: queue_consistent_def)
  have len: "death_queue_first t < length (death_queue t)"
    using c by (simp add: queue_consistent_def)
  show ?thesis
    using last len assms(3) by (simp add: handle_event_append [OF assms(4-6)])
qed


theorem append_at_capacity_witness:
  "0 < thread_max_fd single_lwan \<and>
   thread_run single_lwan (thread_start single_lwan sample_requests)
     [Returned [keep_alive_request 5]] = Inr single_full \<and>
   death_queue_population single_full = thread_max_fd single_lwan \<and>
   \<not> is_hangup (keep_alive_request 6) \<and>
   flags_is_keep_alive (processed_request single_full (keep_alive_request 6)) \<and>
   \<not> flags_alive (processed_request single_full (keep_alive_request 6)) \<and>
   death_queue single_full = [5] \<and>
   death_queue (handle_event single_lwan single_full (keep_alive_request 6)) = [6] \<and>
   death_queue_population (handle_event single_lwan single_full (keep_alive_request 6)) = 2"
proof -
  have a: "0 < thread_max_fd single_lwan"
    and b: "death_queue_population single_full = thread_max_fd single_lwan"
    and c: "flags_is_keep_alive (processed_request single_full (keep_alive_request 6))"
    and d: "\<not> flags_alive (processed_request single_full (keep_alive_request 6))"
    and e: "death_queue single_full = [5]"
    by (simp_all add: single_lwan_fields single_full_def processed_request_def handed_request_def
        reset_request_def zeroed_request_def keep_alive_request_def sample_requests_apply)
  from append_at_capacity [OF a single_first_request b keep_alive_request_no_hangup c d]
  show ?thesis
    using a b c d e single_first_request keep_alive_request_no_hangup
    by (simp add: single_lwan_fields) (simp add: single_full_def keep_alive_request_def)
qed

section \<open>The order of the death queue\<close>

text \<open>
  C2 (amended). Let the worker run from its start on any sequence of \<^verbatim>\<open>epoll_wait\<close>
  results in which every ready entry without hang-up bits is for an fd that is not in
  the death queue at that moment and finds a free cell in the queue, and in which the
  number of timeouts plus the keep-alive timeout stays below \<open>2^32\<close> (the tick does not
  wrap). Then the fds in the death queue, read from head to tail, have non-decreasing
  \<^verbatim>\<open>time_to_die\<close> in their slots. Hang-ups and reaping are unrestricted.
\<close>

theorem appended_deadlines_ordered:
  assumes "0 < thread_max_fd l"
    and "thread_run l (thread_start l rs) ws = Inr t"
    and "appends_only l (thread_start l rs) ws"
    and "length (filter is_timeout ws) + unat (keep_alive_timeout l) < 2 ^ 32"
  shows "sorted (queue_deadlines l t)"
proof -
  have "deadlines_ordered l (thread_start l rs)"
    using queue_consistent_start [OF assms(1), of rs]
    by (simp add: deadlines_ordered_def queue_deadlines_def queue_entries_def thread_start_def)
  moreover have "unat (death_time (thread_start l rs)) + length (filter is_timeout ws) +
                   unat (keep_alive_timeout l) < 2 ^ 32"
    using assms(4) by (simp add: thread_start_def)
  ultimately have "deadlines_ordered l t"
    using deadlines_ordered_run [OF assms(1) _ _ assms(3) assms(2)] by blast
  then show ?thesis
    by (simp add: deadlines_ordered_def)
qed


theorem appended_deadlines_ordered_witness:
  "0 < thread_max_fd sample_lwan \<and>
   thread_run sample_lwan (thread_start sample_lwan sample_requests)
     [Returned [keep_alive_request 5], Returned [], Returned [keep_alive_request 6]] =
     Inr queued_state \<and>
   appends_only sample_lwan (thread_start sample_lwan sample_requests)
     [Returned [keep_alive_request 5], Returned [], Returned [keep_alive_request 6]] \<and>
   length (filter is_timeout
     [Returned [keep_alive_request 5], Returned [], Returned [keep_alive_request 6]]) +
     unat (keep_alive_timeout sample_lwan) < 2 ^ 32 \<and>
   queue_deadlines sample_lwan queued_state = [2, 3] \<and>
   sorted (queue_deadlines sample_lwan queued_state)"
proof -
  let ?ws = "[Returned [keep_alive_request 5], Returned [], Returned [keep_alive_request 6]]"
  have a: "0 < thread_max_fd sample_lwan"
    by (simp add: sample_lwan_fields)
  have b: "appends_only sample_lwan (thread_start sample_lwan sample_requests) ?ws"
    apply (simp only: appends_only.simps fresh_entries.simps first_request idle_second
        second_connection sum.case wait_result.case)
    apply (simp add: keep_alive_request_no_hangup queue_entries_def sample_start
        sample_lwan_fields one_queued_def keep_alive_request_def)
    done
  have c: "length (filter is_timeout ?ws) + unat (keep_alive_timeout sample_lwan) < 2 ^ 32"
    by (simp add: sample_lwan_fields)
  have d: "queue_deadlines sample_lwan queued_state = [2, 3]"
    by (simp add: queue_deadlines_def queue_entries_queued_state) (simp add: queued_state_def)
  from appended_deadlines_ordered [OF a queued_state_reached b c] show ?thesis
    using a b c d queued_state_reached by simp
qed

text \<open>
  C2 as stated fails on an in-place update: fds 5 and 6 are queued at tick 0 with
  deadline 2; after one timeout a further request on fd 5 moves its deadline to 3, and
  its entry stays ahead of fd 6.
\<close>

theorem updated_deadline_out_of_order:
  "\<exists>t. thread_run sample_lwan (thread_start sample_lwan sample_requests)
          [Returned [keep_alive_request 5], Returned [keep_alive_request 6], Returned [],
           Returned [keep_alive_request 5]] = Inr t \<and>
        queue_entries sample_lwan t = [5, 6] \<and>
        queue_deadlines sample_lwan t = [3, 2] \<and>
        \<not> sorted (queue_deadlines sample_lwan t)"
proof -
  let ?a = "one_queued\<lparr>requests := (requests one_queued)
                 (6 := \<lparr>request_fd = 6, flags_alive = True, flags_is_keep_alive = True,
                        time_to_die = 2, response_buffer = 106, opaque_state = 0\<rparr>),
               death_queue := [5, 6, 0, 0], death_queue_last := 2,
               death_queue_population := 2,
               trace := trace one_queued @
                 [Epoll_wait 1000, Strbuf_reset 106,
                  Lwan_process_request
                    \<lparr>request_fd = 6, flags_alive = False, flags_is_keep_alive = False,
                     time_to_die = 0, response_buffer = 106, opaque_state = 0\<rparr>]\<rparr>"
  let ?b = "?a\<lparr>death_time := 1, trace := trace ?a @ [Epoll_wait 1000]\<rparr>"
  let ?c = "?b\<lparr>requests := (requests ?b)
                 (5 := \<lparr>request_fd = 5, flags_alive = True, flags_is_keep_alive = True,
                        time_to_die = 3, response_buffer = 105, opaque_state = 0\<rparr>),
               trace := trace ?b @
                 [Epoll_wait 1000,
                  Lwan_process_request
                    \<lparr>request_fd = 5, flags_alive = True, flags_is_keep_alive = True,
                     time_to_die = 2, response_buffer = 105, opaque_state = 0\<rparr>]\<rparr>"
  have 1: "thread_iteration sample_lwan one_queued (Returned [keep_alive_request 6]) = Inr ?a"
    by (simp add: iteration_simps sample_simps)
  have 2: "thread_iteration sample_lwan ?a (Returned []) = Inr ?b"
    by (simp add: iteration_simps sample_simps)
  have 3: "thread_iteration sample_lwan ?b (Returned [keep_alive_request 5]) = Inr ?c"
    by (simp add: iteration_simps sample_simps)
  have run: "thread_run sample_lwan (thread_start sample_lwan sample_requests)
          [Returned [keep_alive_request 5], Returned [keep_alive_request 6], Returned [],
           Returned [keep_alive_request 5]] = Inr ?c"
    by (simp only: thread_run.simps first_request 1 2 3 sum.case)
  have q: "queue_entries sample_lwan ?c = [5, 6]"
    by (simp add: queue_entries_def sample_lwan_fields upt_conv_Cons) (simp add: one_queued_def)
  have d: "queue_deadlines sample_lwan ?c = [3, 2]"
    unfolding queue_deadlines_def q by (simp add: one_queued_def)
  have "\<not> sorted (queue_deadlines sample_lwan ?c)"
    unfolding d by simp
  with run q d show ?thesis by blast
qed

section \<open>Round-robin dispatch\<close>

text \<open>
  C6 (the code departs from the claim). The counter of \<^verbatim>\<open>_schedule_request\<close> is a C
  \<^verbatim>\<open>int\<close> that every accept increments and nothing resets, and the index returned is
  \<^verbatim>\<open>counter % count\<close>, which has the sign of the counter. Accept number \<open>2^31 + 1\<close> finds
  the counter wrapped to \<^verbatim>\<open>INT_MIN\<close>: with three workers it is given the index \<open>-2\<close>, and
  with two workers the accept after it is given \<open>-1\<close>. \<^verbatim>\<open>_push_request_fd\<close> uses the
  index as it comes and registers the fd with \<^verbatim>\<open>threads[-2].epoll_fd\<close>. Below the wrap
  the indices are in range and the selection is fair (\<open>round_robin_before_overflow\<close>).
\<close>

theorem counter_overflow_index:
  "schedule_requests three_workers 2147483649 0 ! 2147483648 = - 2 \<and>
   fst (schedule_request sample_lwan 2147483649) = - 1 \<and>
   push_request_fd three_workers
       \<lparr>counter = 2147483648, accept4_calls = 2147483649, calls = []\<rparr> 7 0 =
     Inr \<lparr>counter = 2147483649, accept4_calls = 2147483649,
          calls = [Epoll_ctl_add (thread_epoll_fd three_workers (- 2)) 7
                     (EPOLLIN OR EPOLLRDHUP OR EPOLLERR OR EPOLLET)]\<rparr>"
proof -
  have "schedule_requests three_workers (Suc 2147483648) 0 ! 2147483648 =
        fst (schedule_request three_workers (0 + of_nat 2147483648))"
    by (rule schedule_requests_nth)
  also have "\<dots> = - 2"
    by (simp add: schedule_request_def three_workers_def sample_lwan_def signed_modulo_int_def)
  finally have 1: "schedule_requests three_workers 2147483649 0 ! 2147483648 = - 2" by simp
  have 2: "fst (schedule_request sample_lwan 2147483649) = - 1"
    by (simp add: schedule_request_def sample_lwan_def signed_modulo_int_def)
  have 3: "push_request_fd three_workers
       \<lparr>counter = 2147483648, accept4_calls = 2147483649, calls = []\<rparr> 7 0 =
     Inr \<lparr>counter = 2147483649, accept4_calls = 2147483649,
          calls = [Epoll_ctl_add (thread_epoll_fd three_workers (- 2)) 7
                     (EPOLLIN OR EPOLLRDHUP OR EPOLLERR OR EPOLLET)]\<rparr>"
    by (simp add: push_request_fd_def schedule_request_def three_workers_def sample_lwan_def
        signed_modulo_int_def)
  from 1 2 3 show ?thesis by simp
qed


section \<open>The acceptor loop\<close>




section \<open>The buffers of the slot table\<close>

text \<open>
  C7 (the code departs from the claim). Whenever \<^verbatim>\<open>lwan_init\<close> gets past the limits and
  builds a table of \<open>n\<close> slots, slot 0 is left with a \<^verbatim>\<open>NULL\<close> buffer: the loop of line
  353 stops when its index reaches 0. And \<^verbatim>\<open>lwan_shutdown\<close> calls \<^verbatim>\<open>strbuf_free\<close> on the
  slots \<open>max_fd * count - 1\<close> down to 0 only, where \<open>max_fd * count\<close> is \<open>n\<close> rounded
  down to a multiple of the worker count: slot 0's \<^verbatim>\<open>NULL\<close> is passed to \<^verbatim>\<open>strbuf_free\<close>,
  and the buffers of the slots from \<open>max_fd * count\<close> up to \<open>n - 1\<close> are never freed.
\<close>

theorem slot_table_buffers:
  assumes "lwan_init e l = Inr (l', n, rs, cs)"
  shows "response_buffer (rs 0) = 0 \<and>
         lwan_shutdown l' rs =
           map (\<lambda>j. Strbuf_free (response_buffer (rs j)))
             (rev [0..int (n div thread_count l' * thread_count l') - 1]) @ [Free_requests]"
proof -
  let ?c = "raise_rlimit (rlim_cur0 e) (rlim_max0 e)"
  let ?count = "if sysconf_ret e > 0 then nat (sysconf_ret e) else 2"
  have ok: "\<not> getrlimit_ret e < 0" "\<not> setrlimit_ret e < 0"
    using assms by (auto simp: lwan_init_def Let_def split: if_splits)
  obtain rs0 cs0 where al: "alloc_buffers (strbuf_new_ret e) (?c - 1) (\<lambda>i. zeroed_request, []) = (rs0, cs0)"
    by (cases "alloc_buffers (strbuf_new_ret e) (?c - 1) (\<lambda>i. zeroed_request, [])") auto
  have res: "l' = l\<lparr>thread_count := ?count, thread_max_fd := unat ?c div ?count\<rparr>"
    "n = unat ?c" "rs = rs0"
    using assms ok al by (auto simp: lwan_init_def Let_def)
  have "rs0 0 = zeroed_request"
    using alloc_buffers_slot_zero [of "strbuf_new_ret e" "?c - 1" "\<lambda>i. zeroed_request" "[]"] al
    by simp
  then have z: "response_buffer (rs 0) = 0"
    by (simp add: res zeroed_request_def)
  have "0 \<le> int (thread_max_fd l') * int (thread_count l')"
    by (intro mult_nonneg_nonneg) simp_all
  then have nn: "- 1 \<le> int (thread_max_fd l') * int (thread_count l') - 1"
    by linarith
  have "lwan_shutdown l' rs =
        map (\<lambda>j. Strbuf_free (response_buffer (rs j)))
             (rev [0..int (thread_max_fd l') * int (thread_count l') - 1]) @ [Free_requests]"
    unfolding lwan_shutdown_def free_buffers_eq [OF nn] by simp
  moreover have "int (thread_max_fd l') * int (thread_count l') =
                 int (n div thread_count l' * thread_count l')"
    by (simp add: res)
  ultimately show ?thesis
    using z by simp
qed

theorem slot_table_buffers_witness:
  "\<exists>l' rs cs. lwan_init sample_init sample_lwan = Inr (l', 10, rs, cs) \<and>
     thread_count l' = 4 \<and> thread_max_fd l' = 2 \<and>
     map (\<lambda>j. response_buffer (rs j)) [0, 1, 2, 3, 4, 5, 6, 7, 8, 9] =
       [0, 101, 102, 103, 104, 105, 106, 107, 108, 109] \<and>
     lwan_shutdown l' rs =
       [Strbuf_free 107, Strbuf_free 106, Strbuf_free 105, Strbuf_free 104,
        Strbuf_free 103, Strbuf_free 102, Strbuf_free 101, Strbuf_free 0, Free_requests]"
proof -
  obtain l' rs cs where init: "lwan_init sample_init sample_lwan = Inr (l', 10, rs, cs)"
    and l': "thread_count l' = 4" "thread_max_fd l' = 2"
    and bufs: "map (\<lambda>j. response_buffer (rs j)) [0, 1, 2, 3, 4, 5, 6, 7, 8, 9] =
       [0, 101, 102, 103, 104, 105, 106, 107, 108, 109]"
    by (simp add: lwan_init_def sample_init_def raise_rlimit_def RLIM_INFINITY_def
        alloc_buffers_step alloc_buffers_done zeroed_request_def Let_def)
  have up: "rev [0..7] = [7, 6, 5, 4, 3, 2, 1, 0::int]"
    by (simp add: upto_rec1)
  from slot_table_buffers [OF init] have sh:
    "lwan_shutdown l' rs =
       [Strbuf_free 107, Strbuf_free 106, Strbuf_free 105, Strbuf_free 104,
        Strbuf_free 103, Strbuf_free 102, Strbuf_free 101, Strbuf_free 0, Free_requests]"
    using bufs by (simp add: l' up)
  show ?thesis
    by (rule exI [of _ l'], rule exI [of _ rs], rule exI [of _ cs]) (intro conjI init l' bufs sh)
qed

end
